(* ===== verification/Prelude.thy ===== *)
theory Prelude
  imports Main "HOL-Library.Word" "HOL-Library.AList" "HOL-Library.Sublist"
begin

text \<open>
  The shared base of the development: the collections of rewrite rules, the types and
  constants every component uses (characters, C memory, error numbers, the outcome of a call
  that can run into undefined behaviour) and the generic list and arithmetic lemmas.
\<close>

named_theorems errno_defs \<open>values of the error numbers\<close>
named_theorems kvdb_consts \<open>sizes and constants of the property store\<close>
named_theorems libc_simps \<open>evaluation of the C library functions on C strings\<close>

section \<open>C memory\<close>

text \<open>
  A \<open>char\<close> of the program is a HOL \<open>char\<close> (eight bits). A pointer into memory is the list of
  characters from that address to the end of the object it points into, so pointer arithmetic
  is \<open>drop\<close> and an index is \<open>!\<close>; a pointer that may be null is an option of such a list.
  A caller's C string \<open>s\<close> is passed as the memory \<open>s @ [NUL]\<close>.
\<close>

type_synonym cmem = "char list"

abbreviation NUL :: char where
  "NUL \<equiv> CHR 0x00"

definition mem_of :: "string \<Rightarrow> cmem" where
  "mem_of s = s @ [NUL]"

text \<open>
  Undefined behaviour the code can reach is a value: writing through a null pointer, writing or
  reading outside an object, using a freed object.
\<close>

datatype fault = NullDeref | OutOfBounds | UseAfterFree

text \<open>
  Bytes that a call stores into an object at an offset. A write past the end would make the list
  longer than the object.
\<close>

definition mem_write :: "cmem \<Rightarrow> nat \<Rightarrow> cmem \<Rightarrow> cmem" where
  "mem_write buf off d = take off buf @ d @ drop (off + length d) buf"

section \<open>System calls\<close>

text \<open>
  The outcomes of the system calls a component makes are a script, consumed in the order of the
  calls: a call does all of its work, transfers only so many bytes, or fails with an error
  number. When the script is used up every call succeeds.
\<close>

datatype sysres = Full | Short nat | Fail int

definition sys_next :: "sysres list \<Rightarrow> sysres \<times> sysres list" where
  "sys_next rs = (case rs of [] \<Rightarrow> (Full, []) | r # rs' \<Rightarrow> (r, rs'))"

lemma sys_next_Nil [simp]: "sys_next [] = (Full, [])"
  by (simp add: sys_next_def)

section \<open>Error numbers\<close>

text \<open>
  The \<open>errno\<close> macros of the C library. The code only negates them, compares results with zero
  and tells them apart; the numbers are those of \<open>errno.h\<close>.
\<close>

definition EPERM :: int where [errno_defs]: "EPERM = 1"
definition ENOENT :: int where [errno_defs]: "ENOENT = 2"
definition EINTR :: int where [errno_defs]: "EINTR = 4"
definition EIO :: int where [errno_defs]: "EIO = 5"
definition E2BIG :: int where [errno_defs]: "E2BIG = 7"
definition ENOMEM :: int where [errno_defs]: "ENOMEM = 12"
definition EISDIR :: int where [errno_defs]: "EISDIR = 21"
definition EBUSY :: int where [errno_defs]: "EBUSY = 16"

definition EINVAL :: int where [errno_defs]: "EINVAL = 22"
definition ERANGE :: int where [errno_defs]: "ERANGE = 34"
definition ENODATA :: int where [errno_defs]: "ENODATA = 61"
definition ECONNRESET :: int where [errno_defs]: "ECONNRESET = 104"
definition ETIMEDOUT :: int where [errno_defs]: "ETIMEDOUT = 110"

section \<open>The range of a C int\<close>

definition is_int32 :: "int \<Rightarrow> bool" where
  "is_int32 i \<longleftrightarrow> - (2 ^ 31) \<le> i \<and> i < 2 ^ 31"

section \<open>Unsigned sizes\<close>

text \<open>
  A \<open>size_t\<close> is a natural number below \<open>2 ^ SIZE_BITS\<close>; the operations whose wrap-around the
  code meets write the reduction out.
\<close>

definition SIZE_BITS :: nat where "SIZE_BITS = 32"

definition size_dec :: "nat \<Rightarrow> nat" where
  "size_dec n = (n + (2 ^ SIZE_BITS - 1)) mod 2 ^ SIZE_BITS"

definition size_double :: "nat \<Rightarrow> nat" where
  "size_double n = (2 * n) mod 2 ^ SIZE_BITS"

lemma size_dec_0: "size_dec 0 = 2 ^ SIZE_BITS - 1"
  by (simp add: size_dec_def SIZE_BITS_def)

lemma size_dec_Suc: "n < 2 ^ SIZE_BITS \<Longrightarrow> size_dec (Suc n) = n"
proof -
  assume n: "n < 2 ^ SIZE_BITS"
  have "Suc n + (2 ^ SIZE_BITS - 1) = n + 2 ^ SIZE_BITS"
    by (simp add: SIZE_BITS_def)
  with n show ?thesis by (simp add: size_dec_def)
qed

lemma size_double_small: "2 * n < 2 ^ SIZE_BITS \<Longrightarrow> size_double n = 2 * n"
  by (simp add: size_double_def)

section \<open>Lists\<close>

lemma length_mem_write [simp]: "off + length d \<le> length buf \<Longrightarrow> length (mem_write buf off d) = length buf"
  by (simp add: mem_write_def)

lemma mem_write_Nil [simp]: "mem_write buf off [] = buf"
  by (simp add: mem_write_def)

lemma mem_write_0: "mem_write buf 0 d = d @ drop (length d) buf"
  by (simp add: mem_write_def)

lemma mem_write_prefix:
  "mem_write (d @ r) (length d) e = (d @ e) @ drop (length e) r"
  by (simp add: mem_write_def)

lemma takeWhile_append_stop:
  "(\<And>x. x \<in> set xs \<Longrightarrow> P x) \<Longrightarrow> \<not> P y \<Longrightarrow> takeWhile P (xs @ y # ys) = xs"
  by (induction xs) auto

lemma take_Suc_length_append [simp]: "take (Suc (length xs)) (xs @ y # ys) = xs @ [y]"
  by (induction xs) auto

lemma drop_Suc_length_append [simp]: "drop (Suc (length xs)) (xs @ y # ys) = ys"
  by (induction xs) auto

lemma distinct_filter_single:
  "distinct (map f xs) \<Longrightarrow> x \<in> set xs \<Longrightarrow> filter (\<lambda>y. f y = f x) xs = [x]"
proof (induction xs)
  case (Cons y ys)
  show ?case
  proof (cases "x = y")
    case True
    with Cons.prems(1) have "filter (\<lambda>z. f z = f x) ys = []" by (auto simp: filter_empty_conv image_iff)
    with True show ?thesis by simp
  next
    case False
    with Cons show ?thesis by (auto simp: image_iff)
  qed
qed simp

lemma map_of_update_conv [simp]: "map_of (AList.update k v xs) = (map_of xs)(k \<mapsto> v)"
  by (rule update_conv')

lemma map_of_delete_conv [simp]: "map_of (AList.delete k xs) = (map_of xs)(k := None)"
  by (rule delete_conv')

end
