(* ===== verification/Libc.thy ===== *)
theory Libc
  imports Prelude
begin

text \<open>
  The part of the C library the program computes with: strings in memory, character classes,
  decimal formatting (\<open>snprintf\<close> with \<open>PRId32\<close> and \<open>PRId64\<close>, \<open>itoa\<close>) and number parsing
  (\<open>strtol\<close> and \<open>strtoll\<close> with base 0, \<open>atoi\<close>), with the round trips the typed accessors rest on.
\<close>

section \<open>Strings in memory\<close>

definition cstr :: "cmem \<Rightarrow> string" where
  "cstr p = takeWhile (\<lambda>c. c \<noteq> NUL) p"

definition strlen :: "cmem \<Rightarrow> nat" where
  "strlen p = length (cstr p)"

text \<open>\<open>strncmp a b n == 0\<close>; memory that ends without a terminator differs from everything.\<close>

fun strncmp_eq :: "cmem \<Rightarrow> cmem \<Rightarrow> nat \<Rightarrow> bool" where
  "strncmp_eq a b 0 = True"
| "strncmp_eq (a # as) (b # bs) (Suc n) = (a = b \<and> (a = NUL \<or> strncmp_eq as bs n))"
| "strncmp_eq a b (Suc n) = False"

text \<open>The string \<open>strlcpy dst src n\<close> leaves in \<open>dst\<close>, for \<open>0 < n\<close>.\<close>

definition strlcpy :: "string \<Rightarrow> nat \<Rightarrow> string" where
  "strlcpy s n = take (n - 1) s"

text \<open>The string \<open>strlcat dst src n\<close> leaves in \<open>dst\<close>, which holds \<open>d\<close>, for \<open>length d < n\<close>.\<close>

definition strlcat :: "string \<Rightarrow> string \<Rightarrow> nat \<Rightarrow> string" where
  "strlcat d s n = d @ take (n - 1 - length d) s"

text \<open>The string \<open>snprintf dst n\<close> leaves in \<open>dst\<close> when the formatted text is \<open>s\<close>.\<close>

definition snprintf :: "nat \<Rightarrow> string \<Rightarrow> string" where
  "snprintf n s = take (n - 1) s"

definition cstring :: "string \<Rightarrow> bool" where
  "cstring s \<longleftrightarrow> NUL \<notin> set s"

lemma cstring_simps [simp]:
  "cstring []" "cstring (c # s) \<longleftrightarrow> c \<noteq> NUL \<and> cstring s"
  "cstring (s @ t) \<longleftrightarrow> cstring s \<and> cstring t"
  by (auto simp: cstring_def)

lemma cstring_take [simp, intro]: "cstring s \<Longrightarrow> cstring (take n s)"
  by (auto simp: cstring_def dest: in_set_takeD)

lemma cstring_cstr [simp, intro]: "cstring (cstr p)"
  by (auto simp: cstring_def cstr_def dest: set_takeWhileD)

lemma cstr_append_NUL [simp, libc_simps]: "cstring s \<Longrightarrow> cstr (s @ NUL # r) = s"
  unfolding cstr_def cstring_def by (rule takeWhile_append_stop) auto

lemma cstr_Nil [simp]: "cstr [] = []"
  by (simp add: cstr_def)

lemma cstr_Cons [simp]: "cstr (c # p) = (if c = NUL then [] else c # cstr p)"
  by (simp add: cstr_def)

lemma cstr_id [simp]: "cstring s \<Longrightarrow> cstr s = s"
  unfolding cstr_def cstring_def by (simp add: takeWhile_eq_all_conv) blast

lemma cstr_mem_of [simp]: "cstring s \<Longrightarrow> cstr (mem_of s) = s"
  by (simp add: mem_of_def)

lemma strlen_mem_of [simp]: "cstring s \<Longrightarrow> strlen (mem_of s) = length s"
  by (simp add: strlen_def)

lemma strlen_append_NUL [simp]: "cstring s \<Longrightarrow> strlen (s @ NUL # r) = length s"
  by (simp add: strlen_def)

lemma strncmp_eq_prefix:
  "cstring l \<Longrightarrow> strncmp_eq p (l @ [NUL]) (length l) \<longleftrightarrow> prefix l (cstr p)"
proof (induction l arbitrary: p)
  case Nil
  then show ?case by simp
next
  case (Cons a l)
  then show ?case by (cases p) auto
qed

lemma strncmp_eq_whole:
  "cstring l \<Longrightarrow> NUL \<in> set p \<Longrightarrow> strncmp_eq p (l @ [NUL]) (Suc (length l)) \<longleftrightarrow> cstr p = l"
proof (induction l arbitrary: p)
  case Nil
  then show ?case by (cases p) auto
next
  case (Cons a l)
  then show ?case by (cases p) auto
qed

section \<open>Character classes\<close>

abbreviation ccode :: "char \<Rightarrow> nat" where
  "ccode c \<equiv> of_char c"

definition isdigit :: "char \<Rightarrow> bool" where
  "isdigit c \<longleftrightarrow> 48 \<le> ccode c \<and> ccode c \<le> 57"

definition isupper :: "char \<Rightarrow> bool" where
  "isupper c \<longleftrightarrow> 65 \<le> ccode c \<and> ccode c \<le> 90"

definition islower :: "char \<Rightarrow> bool" where
  "islower c \<longleftrightarrow> 97 \<le> ccode c \<and> ccode c \<le> 122"

definition isxdigit :: "char \<Rightarrow> bool" where
  "isxdigit c \<longleftrightarrow> isdigit c \<or> (65 \<le> ccode c \<and> ccode c \<le> 70) \<or> (97 \<le> ccode c \<and> ccode c \<le> 102)"

definition isspace :: "char \<Rightarrow> bool" where
  "isspace c \<longleftrightarrow> ccode c = 32 \<or> (9 \<le> ccode c \<and> ccode c \<le> 13)"

definition isprint :: "char \<Rightarrow> bool" where
  "isprint c \<longleftrightarrow> 32 \<le> ccode c \<and> ccode c \<le> 126"

definition tolower :: "char \<Rightarrow> nat" where
  "tolower c = (if isupper c then ccode c + 32 else ccode c)"

lemmas ctype_defs = isdigit_def isupper_def islower_def isxdigit_def isspace_def isprint_def
  tolower_def

section \<open>Decimal output\<close>

definition digit_char :: "nat \<Rightarrow> char" where
  "digit_char d = char_of (48 + d)"

fun show_nat :: "nat \<Rightarrow> string" where
  "show_nat n = (if n < 10 then [digit_char n] else show_nat (n div 10) @ [digit_char (n mod 10)])"

declare show_nat.simps [simp del]

definition show_int :: "int \<Rightarrow> string" where
  "show_int i = (if i < 0 then CHR ''-'' # show_nat (nat (- i)) else show_nat (nat i))"

text \<open>Hexadecimal output (\<open>%x\<close>), padded with zeros to a width (\<open>%02x\<close>, \<open>%04x\<close>).\<close>

definition hex_char :: "nat \<Rightarrow> char" where
  "hex_char d = (if d < 10 then char_of (48 + d) else char_of (87 + d))"

fun show_hex :: "nat \<Rightarrow> string" where
  "show_hex n = (if n < 16 then [hex_char n] else show_hex (n div 16) @ [hex_char (n mod 16)])"

declare show_hex.simps [simp del]

definition pad_hex :: "nat \<Rightarrow> nat \<Rightarrow> string" where
  "pad_hex w n = replicate (w - length (show_hex n)) (CHR ''0'') @ show_hex n"

section \<open>Number input\<close>

definition digit_val :: "char \<Rightarrow> nat" where
  "digit_val c = (if isdigit c then ccode c - 48
     else if isupper c then ccode c - 55
     else if islower c then ccode c - 87 else 36)"

text \<open>The digits of a base are consumed while they last.\<close>

fun scan_digits :: "nat \<Rightarrow> nat \<Rightarrow> string \<Rightarrow> nat \<times> string" where
  "scan_digits b acc [] = (acc, [])"
| "scan_digits b acc (c # s) =
     (if digit_val c < b then scan_digits b (acc * b + digit_val c) s else (acc, c # s))"

definition scan_sign :: "string \<Rightarrow> bool \<times> string" where
  "scan_sign s = (case s of [] \<Rightarrow> (False, [])
     | c # r \<Rightarrow> if c = CHR ''-'' then (True, r) else if c = CHR ''+'' then (False, r) else (False, s))"

text \<open>The base of a number whose base argument is 0, and where its digits start.\<close>

definition scan_base :: "string \<Rightarrow> nat \<times> string" where
  "scan_base s = (case s of
       c # d # e # r \<Rightarrow>
         if c = CHR ''0'' \<and> (d = CHR ''x'' \<or> d = CHR ''X'') \<and> isxdigit e then (16, e # r)
         else if c = CHR ''0'' then (8, s) else (10, s)
     | c # r \<Rightarrow> if c = CHR ''0'' then (8, s) else (10, s)
     | [] \<Rightarrow> (10, s))"

text \<open>
  \<open>strtol(s, &end, 0)\<close> for a \<open>long\<close> of the given width: the value, the unread rest (\<open>end\<close>), and
  the error number it sets (0 for none). Without a digit the rest is the whole string; a value
  out of range is clamped with \<open>ERANGE\<close>.
\<close>

definition strtol :: "nat \<Rightarrow> string \<Rightarrow> int \<times> string \<times> int" where
  "strtol bits s =
     (let (neg, s2) = scan_sign (dropWhile isspace s);
          (b, s3) = scan_base s2;
          (n, rest) = scan_digits b 0 s3;
          v = (if neg then - int n else int n)
      in if rest = s3 then (0, s, 0)
         else if v < - (2 ^ (bits - 1)) then (- (2 ^ (bits - 1)), rest, ERANGE)
         else if 2 ^ (bits - 1) \<le> v then (2 ^ (bits - 1) - 1, rest, ERANGE)
         else (v, rest, 0))"

text \<open>\<open>atoi\<close> on a 32-bit \<open>int\<close>: base 10, no error report.\<close>

definition atoi :: "string \<Rightarrow> int" where
  "atoi s =
     (let (neg, s2) = scan_sign (dropWhile isspace s); (n, rest) = scan_digits 10 0 s2
      in if neg then - int n else int n)"

section \<open>Round trips of the number functions\<close>

lemma isdigit_digit_char [simp]: "d < 10 \<Longrightarrow> isdigit (digit_char d)"
  by (simp add: isdigit_def digit_char_def)

lemma digit_val_digit_char [simp]: "d < 10 \<Longrightarrow> digit_val (digit_char d) = d"
  by (simp add: digit_val_def digit_char_def isdigit_def)

lemma digit_char_eq_0: "d < 10 \<Longrightarrow> digit_char d = CHR ''0'' \<longleftrightarrow> d = 0"
proof -
  assume d: "d < 10"
  have "digit_char d = CHR ''0'' \<longleftrightarrow> ccode (digit_char d) = ccode (CHR ''0'')"
    by (simp only: of_char_eq_iff)
  with d show ?thesis by (simp add: digit_char_def)
qed

lemma show_nat_not_Nil [simp]: "show_nat n \<noteq> []" "[] \<noteq> show_nat n"
  by (subst show_nat.simps, simp)+

lemma show_int_not_Nil [simp]: "show_int i \<noteq> []" "[] \<noteq> show_int i"
  by (simp_all add: show_int_def)

lemma set_show_nat: "c \<in> set (show_nat n) \<Longrightarrow> isdigit c"
proof (induction n rule: show_nat.induct)
  case (1 n)
  then show ?case by (subst (asm) show_nat.simps) (auto split: if_splits)
qed

lemma hd_show_nat_0: "hd (show_nat n) = CHR ''0'' \<Longrightarrow> n = 0"
proof (induction n rule: show_nat.induct)
  case (1 n)
  show ?case
  proof (cases "n < 10")
    case True
    with "1.prems" show ?thesis by (simp add: show_nat.simps [of n] digit_char_eq_0)
  next
    case False
    with "1" have "n div 10 = 0" by (simp add: show_nat.simps [of n])
    with False show ?thesis by simp
  qed
qed

lemma scan_digits_show_nat:
  "scan_digits 10 acc (show_nat n @ rest) = scan_digits 10 (acc * 10 ^ length (show_nat n) + n) rest"
proof (induction n arbitrary: acc rest rule: show_nat.induct)
  case (1 n)
  show ?case
  proof (cases "n < 10")
    case True
    then show ?thesis by (simp add: show_nat.simps [of n])
  next
    case False
    from False "1" [of acc "digit_char (n mod 10) # rest"] show ?thesis
      by (simp add: show_nat.simps [of n] algebra_simps)
  qed
qed

lemma show_nat_Cons: "\<exists>c r. show_nat n = c # r \<and> isdigit c \<and> (c = CHR ''0'' \<longrightarrow> n = 0)"
proof -
  obtain c r where cr: "show_nat n = c # r" by (cases "show_nat n") auto
  then have "c \<in> set (show_nat n)" by simp
  then have "isdigit c" by (rule set_show_nat)
  with cr show ?thesis using hd_show_nat_0 [of n] by auto
qed

lemma isdigit_not_sign: "isdigit c \<Longrightarrow> c \<noteq> CHR ''-'' \<and> c \<noteq> CHR ''+'' \<and> \<not> isspace c \<and> c \<noteq> NUL"
  by (auto simp: ctype_defs)

lemma isspace_minus [simp]: "\<not> isspace (CHR ''-'')"
  by (simp add: isspace_def)

lemma show_nat_0: "show_nat 0 = ''0''"
  by (subst show_nat.simps) (simp add: digit_char_eq_0)

lemma scan_sign_show_nat: "scan_sign (dropWhile isspace (show_nat n)) = (False, show_nat n)"
  using show_nat_Cons [of n] isdigit_not_sign by (auto simp: scan_sign_def)

lemma scan_sign_show_int:
  "scan_sign (dropWhile isspace (show_int i)) = (i < 0, show_nat (nat \<bar>i\<bar>))"
proof (cases "i < 0")
  case True
  then show ?thesis by (simp add: show_int_def scan_sign_def)
next
  case False
  then show ?thesis by (simp add: show_int_def scan_sign_show_nat)
qed

lemma scan_base_show_nat:
  "\<exists>b. scan_base (show_nat n) = (b, show_nat n) \<and> scan_digits b 0 (show_nat n) = (n, [])"
proof (cases "n = 0")
  case True
  then show ?thesis
    by (simp add: show_nat_0 scan_base_def digit_val_def isdigit_def)
next
  case False
  then obtain c r where cr: "show_nat n = c # r" and "c \<noteq> CHR ''0''"
    using show_nat_Cons [of n] by auto
  then have "scan_base (show_nat n) = (10, show_nat n)"
    by (auto simp: scan_base_def split: list.splits)
  moreover have "scan_digits 10 0 (show_nat n) = (n, [])"
    using scan_digits_show_nat [of 0 n "[]"] by simp
  ultimately show ?thesis by simp
qed

theorem strtol_show_int:
  assumes "- (2 ^ (bits - 1)) \<le> i" "i < 2 ^ (bits - 1)"
  shows "strtol bits (show_int i) = (i, [], 0)"
proof -
  obtain b where b: "scan_base (show_nat (nat \<bar>i\<bar>)) = (b, show_nat (nat \<bar>i\<bar>))"
    "scan_digits b 0 (show_nat (nat \<bar>i\<bar>)) = (nat \<bar>i\<bar>, [])"
    using scan_base_show_nat by blast
  have v: "(if i < 0 then - int (nat \<bar>i\<bar>) else int (nat \<bar>i\<bar>)) = i" by simp
  show ?thesis
    unfolding strtol_def scan_sign_show_int Let_def split_def b fst_conv snd_conv v
    using assms by auto
qed

lemma atoi_show_int: "atoi (show_int i) = i"
proof -
  have "scan_digits 10 0 (show_nat (nat \<bar>i\<bar>)) = (nat \<bar>i\<bar>, [])"
    using scan_digits_show_nat [of 0 "nat \<bar>i\<bar>" "[]"] by simp
  then show ?thesis by (simp add: atoi_def scan_sign_show_int)
qed

lemma cstring_show_nat [simp]: "cstring (show_nat n)"
  using set_show_nat [of NUL n] by (auto simp: cstring_def isdigit_def)

lemma cstring_show_int [simp]: "cstring (show_int i)"
  by (simp add: show_int_def)

lemma length_show_nat: "n < 10 ^ Suc k \<Longrightarrow> length (show_nat n) \<le> Suc k"
proof (induction n arbitrary: k rule: show_nat.induct)
  case (1 n)
  show ?case
  proof (cases "n < 10")
    case True
    then show ?thesis by (simp add: show_nat.simps [of n])
  next
    case False
    with "1.prems" obtain j where k: "k = Suc j" by (cases k) auto
    with "1.prems" have "n div 10 < 10 ^ Suc j" by auto
    with "1.IH" False k show ?thesis by (simp add: show_nat.simps [of n])
  qed
qed

lemma length_show_int:
  assumes "- (10 ^ Suc k) < i" "i < 10 ^ Suc k"
  shows "length (show_int i) \<le> Suc (Suc k)"
proof -
  have "nat \<bar>i\<bar> < 10 ^ Suc k"
  proof -
    have "int (nat \<bar>i\<bar>) < int (10 ^ Suc k)" using assms by simp
    then show ?thesis by (simp only: of_nat_less_iff)
  qed
  then have "length (show_nat (nat \<bar>i\<bar>)) \<le> Suc k" by (rule length_show_nat)
  then show ?thesis by (auto simp: show_int_def)
qed

section \<open>Hexadecimal round trip\<close>

text \<open>
  \<open>sscanf(s, "%04x", &n)\<close> with its field width: white space, then at most four characters of an optional
  sign, an optional prefix and digits; \<open>None\<close> when there is no digit.
\<close>

definition scan_hex :: "nat \<Rightarrow> string \<Rightarrow> int option" where
  "scan_hex width s =
     (let (neg, s2) = scan_sign (take width (dropWhile isspace s));
          s3 = (case s2 of c # d # e # r \<Rightarrow>
                  if c = CHR ''0'' \<and> (d = CHR ''x'' \<or> d = CHR ''X'') \<and> isxdigit e then e # r else s2 | _ \<Rightarrow> s2);
          (n, rest) = scan_digits 16 0 s3
      in if rest = s3 then None else Some (if neg then - int n else int n))"

lemma hex_char_ccode: "d < 16 \<Longrightarrow> ccode (hex_char d) = (if d < 10 then 48 + d else 87 + d)"
  by (simp add: hex_char_def)

lemma hex_char_0: "hex_char 0 = CHR ''0''"
proof -
  have "ccode (hex_char 0) = ccode (CHR ''0'')" by (simp add: hex_char_ccode)
  then show ?thesis by (simp only: of_char_eq_iff)
qed

lemma hex_char_code:
  assumes "d < 16"
  shows "digit_val (hex_char d) = d" "isspace (hex_char d) = False" "hex_char d \<noteq> CHR ''-''"
    "hex_char d \<noteq> CHR ''+''" "hex_char d \<noteq> CHR ''x''" "hex_char d \<noteq> CHR ''X''" "hex_char d \<noteq> NUL"
  using hex_char_ccode [OF assms] assms
  by (auto simp: digit_val_def ctype_defs split: if_splits dest!: arg_cong [of "hex_char d" _ ccode])

lemma pad_hex_4:
  assumes "n < 16 ^ 4"
  shows "pad_hex 4 n = map hex_char [n div 16 div 16 div 16, n div 16 div 16 mod 16, n div 16 mod 16, n mod 16]"
proof -
  note z = hex_char_0
  consider "n < 16" | "16 \<le> n" "n < 16 ^ 2" | "16 ^ 2 \<le> n" "n < 16 ^ 3" | "16 ^ 3 \<le> n" by linarith
  then show ?thesis
  proof cases
    case 1
    then show ?thesis by (simp add: pad_hex_def show_hex.simps z numeral_3_eq_3)
  next
    case 2
    then have "n div 16 < 16" "16 \<le> n" by auto
    then show ?thesis by (simp add: pad_hex_def show_hex.simps [of n] show_hex.simps [of "n div 16"] z numeral_2_eq_2)
  next
    case 3
    then have "n div 16 div 16 < 16" "16 \<le> n div 16" "16 \<le> n" by auto
    then show ?thesis
      by (simp add: pad_hex_def show_hex.simps [of n] show_hex.simps [of "n div 16"]
          show_hex.simps [of "n div 16 div 16"] z)
  next
    case 4
    with assms have "n div 16 div 16 div 16 < 16" "16 \<le> n div 16 div 16" "16 \<le> n div 16" "16 \<le> n" by auto
    then show ?thesis
      by (simp add: pad_hex_def show_hex.simps [of n] show_hex.simps [of "n div 16"]
          show_hex.simps [of "n div 16 div 16"] show_hex.simps [of "n div 16 div 16 div 16"])
  qed
qed

lemma scan_pad_hex:
  assumes "n < 16 ^ 4"
  shows "scan_hex 4 (pad_hex 4 n @ r) = Some (int n)" "length (pad_hex 4 n) = 4" "NUL \<notin> set (pad_hex 4 n)"
proof -
  define a b c d where "a = n div 16 div 16 div 16" and "b = n div 16 div 16 mod 16"
    and "c = n div 16 mod 16" and "d = n mod 16"
  have lt: "a < 16" "b < 16" "c < 16" "d < 16" using assms by (auto simp: a_def b_def c_def d_def)
  note h = hex_char_code [OF lt(1)] hex_char_code [OF lt(2)] hex_char_code [OF lt(3)] hex_char_code [OF lt(4)]
  have p: "pad_hex 4 n = [hex_char a, hex_char b, hex_char c, hex_char d]"
    using pad_hex_4 [OF assms] by (simp add: a_def b_def c_def d_def)
  have "n = ((a * 16 + b) * 16 + c) * 16 + d" by (simp add: a_def b_def c_def d_def)
  then have "scan_digits 16 0 [hex_char a, hex_char b, hex_char c, hex_char d] = (n, [])"
    using lt by (simp add: h)
  then show "scan_hex 4 (pad_hex 4 n @ r) = Some (int n)"
    by (simp add: p scan_hex_def scan_sign_def h del: scan_digits.simps)
  show "length (pad_hex 4 n) = 4" "NUL \<notin> set (pad_hex 4 n)"
    using h(7) h(14) h(21) h(28) by (auto simp: p)
qed

end
