(* ===== verification/Keyspace.thy ===== *)
theory Keyspace
  imports Libc
begin

text \<open>
  The vocabulary of the property store: the size limits of \<open>include/sys/system_properties.h\<close> and
  \<open>include/kvdb.h\<close>, the build configuration, the database index of a key
  (\<open>kvdb_get_index\<close> of \<open>kvdb/common.c\<close>) and the operations every storage backend provides
  (\<open>kvdb/internal.h\<close>), with their contract as the locale \<open>kv_backend\<close>.
\<close>

section \<open>Limits and configuration\<close>

definition PROP_NAME_MAX :: nat where [kvdb_consts]: "PROP_NAME_MAX = 127"

definition PROP_VALUE_MAX :: nat where [kvdb_consts]: "PROP_VALUE_MAX = 255"

definition PROP_MSG_MAX :: nat where [kvdb_consts]: "PROP_MSG_MAX = 3 + PROP_NAME_MAX + PROP_VALUE_MAX"

definition PATH_MAX :: nat where [kvdb_consts]: "PATH_MAX = 256"

definition PERSIST_LABEL :: string where "PERSIST_LABEL = ''persist.''"

definition PERSIST_LABEL_LEN :: nat where "PERSIST_LABEL_LEN = 8"

text \<open>The options of \<open>Kconfig\<close> the modelled code is compiled with.\<close>

record config =
  CONFIG_KVDB_TEMPORARY_STORAGE :: bool
  CONFIG_KVDB_PERSIST_PATH :: string
  CONFIG_KVDB_TEMPORARY_PATH :: string
  CONFIG_KVDB_SOURCE_PATH :: string
  CONFIG_KVDB_COMMIT_INTERVAL :: int
  CONFIG_KVDB_DUMPLIST :: bool
  CONFIG_NET_LOCAL :: bool
  CONFIG_NET_RPMSG :: bool

definition KVDB_PERSIST :: int where [kvdb_consts]: "KVDB_PERSIST = 0"

definition KVDB_MEM :: int where [kvdb_consts]: "KVDB_MEM = 1"

definition KVDB_COUNT :: "config \<Rightarrow> nat" where
  "KVDB_COUNT cfg = (if CONFIG_KVDB_TEMPORARY_STORAGE cfg then 2 else 1)"

definition kvdb_get_index :: "config \<Rightarrow> cmem \<Rightarrow> int" where
  "kvdb_get_index cfg key =
     (if strncmp_eq key (mem_of PERSIST_LABEL) PERSIST_LABEL_LEN then KVDB_PERSIST
      else if CONFIG_KVDB_TEMPORARY_STORAGE cfg then KVDB_MEM
      else - EINVAL)"

definition persistent :: "string \<Rightarrow> bool" where
  "persistent k \<longleftrightarrow> prefix PERSIST_LABEL k"

lemma cstring_PERSIST_LABEL [simp]: "cstring PERSIST_LABEL"
  by (simp add: PERSIST_LABEL_def)

lemma kvdb_get_index_cstr:
  "kvdb_get_index cfg key =
     (if persistent (cstr key) then KVDB_PERSIST
      else if CONFIG_KVDB_TEMPORARY_STORAGE cfg then KVDB_MEM else - EINVAL)"
proof -
  have "length PERSIST_LABEL = PERSIST_LABEL_LEN"
    by (simp add: PERSIST_LABEL_def PERSIST_LABEL_LEN_def)
  then show ?thesis
    using strncmp_eq_prefix [OF cstring_PERSIST_LABEL, of key]
    by (simp add: kvdb_get_index_def persistent_def mem_of_def)
qed

lemma kvdb_get_index_range:
  assumes "0 \<le> kvdb_get_index cfg key"
  shows "nat (kvdb_get_index cfg key) < KVDB_COUNT cfg"
  using assms by (auto simp: kvdb_get_index_def KVDB_COUNT_def kvdb_consts errno_defs split: if_splits)

lemma int32_consts [simp]:
  "is_int32 0" "is_int32 (- EINVAL)" "is_int32 (- E2BIG)" "is_int32 (- EPERM)" "is_int32 KVDB_PERSIST"
  "is_int32 KVDB_MEM" "is_int32 (- ENOENT)" "is_int32 (- EISDIR)" "is_int32 (- 1)"
  by (simp_all add: is_int32_def errno_defs kvdb_consts)

lemma int32_index [simp]: "is_int32 (kvdb_get_index cfg key)"
  by (simp add: kvdb_get_index_def)

section \<open>Messages of the store\<close>

text \<open>
  The macros of \<open>kvdb/internal.h\<close> that write to the system log, by the level that is configured: the calls of
  \<open>syslog\<close> with the level and the text. \<open>msg\<close> is the formatted message, \<open>func\<close> and \<open>line\<close> are the place of
  the call.
\<close>

datatype kvdb_log = CONFIG_KVDB_LOG_INFO | CONFIG_KVDB_LOG_WARN | CONFIG_KVDB_LOG_ERR | CONFIG_KVDB_LOG_SILENT

definition LOG_ERR :: nat where "LOG_ERR = 3"

definition LOG_WARNING :: nat where "LOG_WARNING = 4"

definition LOG_INFO :: nat where "LOG_INFO = 6"

definition KVLOG :: "nat \<Rightarrow> string \<Rightarrow> nat \<Rightarrow> string \<Rightarrow> (nat \<times> string) list" where
  "KVLOG level func line msg = [(level, ''[kvdb] ['' @ func @ '':'' @ show_nat line @ ''] '' @ msg)]"

fun KVINFO :: "kvdb_log \<Rightarrow> string \<Rightarrow> nat \<Rightarrow> string \<Rightarrow> (nat \<times> string) list" where
  "KVINFO CONFIG_KVDB_LOG_INFO func line msg = KVLOG LOG_INFO func line msg"
| "KVINFO _ func line msg = []"

fun KVWARN :: "kvdb_log \<Rightarrow> string \<Rightarrow> nat \<Rightarrow> string \<Rightarrow> (nat \<times> string) list" where
  "KVWARN CONFIG_KVDB_LOG_INFO func line msg = KVLOG LOG_WARNING func line msg"
| "KVWARN CONFIG_KVDB_LOG_WARN func line msg = KVLOG LOG_WARNING func line msg"
| "KVWARN _ func line msg = []"

fun KVERR :: "kvdb_log \<Rightarrow> string \<Rightarrow> nat \<Rightarrow> string \<Rightarrow> (nat \<times> string) list" where
  "KVERR CONFIG_KVDB_LOG_SILENT func line msg = []"
| "KVERR _ func line msg = KVLOG LOG_ERR func line msg"

text \<open>The configured level is a threshold: a message is written exactly when its level does not exceed it.\<close>

fun kvlog_threshold :: "kvdb_log \<Rightarrow> nat" where
  "kvlog_threshold CONFIG_KVDB_LOG_INFO = LOG_INFO"
| "kvlog_threshold CONFIG_KVDB_LOG_WARN = LOG_WARNING"
| "kvlog_threshold CONFIG_KVDB_LOG_ERR = LOG_ERR"
| "kvlog_threshold CONFIG_KVDB_LOG_SILENT = 0"

lemma kvlog_levels:
  "KVINFO c func line msg = (if LOG_INFO \<le> kvlog_threshold c then KVLOG LOG_INFO func line msg else [])"
  "KVWARN c func line msg = (if LOG_WARNING \<le> kvlog_threshold c then KVLOG LOG_WARNING func line msg else [])"
  "KVERR c func line msg = (if LOG_ERR \<le> kvlog_threshold c then KVLOG LOG_ERR func line msg else [])"
  by (cases c; simp add: LOG_INFO_def LOG_WARNING_def LOG_ERR_def)+

section \<open>Backends\<close>

text \<open>
  The functions of \<open>kvdb/internal.h\<close>. The state \<open>'w\<close> is the storage behind the \<open>struct kvdb\<close>
  handle together with the handle. A key or value argument is memory, with \<open>None\<close> for a null
  pointer; \<open>kvdb_get\<close> takes whether the value buffer is not null and its size, and returns the
  result with the bytes it stored in the buffer; \<open>kvdb_list\<close> takes whether the callback is not
  null and returns its result with the calls of the callback, in order, as the key string and
  the value bytes.
\<close>

record 'w backend =
  kvdb_init :: "'w \<Rightarrow> int \<times> 'w"
  kvdb_uninit :: "'w \<Rightarrow> 'w"
  kvdb_set :: "'w \<Rightarrow> cmem option \<Rightarrow> nat \<Rightarrow> cmem option \<Rightarrow> nat \<Rightarrow> bool \<Rightarrow> int \<times> 'w"
  kvdb_get :: "'w \<Rightarrow> cmem option \<Rightarrow> nat \<Rightarrow> bool \<Rightarrow> nat \<Rightarrow> (int \<times> string) \<times> 'w"
  kvdb_delete :: "'w \<Rightarrow> cmem option \<Rightarrow> nat \<Rightarrow> int \<times> 'w"
  kvdb_list :: "'w \<Rightarrow> bool \<Rightarrow> (int \<times> (string \<times> string) list) \<times> 'w"
  kvdb_commit :: "'w \<Rightarrow> int \<times> 'w"

text \<open>
  What the clients of a backend rely on, over an abstract view of the storage as a map from keys
  to values: between calls of the program the storage is \<open>idle\<close>, after \<open>kvdb_init\<close> it is
  \<open>opened\<close>; a call that fails leaves the view alone; a successful set or delete changes exactly
  its own key; a get returns the stored value cut to the buffer. Keys are C strings of a legal
  length that the backend can name (\<open>good_key\<close>), whatever memory follows their terminator.
\<close>

locale kv_backend =
  fixes B :: "'w backend"
    and view :: "'w \<Rightarrow> string \<Rightarrow> string option"
    and idle :: "'w \<Rightarrow> bool"
    and opened :: "'w \<Rightarrow> bool"
    and good_key :: "string \<Rightarrow> bool"
  assumes good_key_wf: "good_key k \<Longrightarrow> cstring k \<and> length k < PROP_NAME_MAX"
    and view_bound: "opened w \<Longrightarrow> view w k = Some v \<Longrightarrow> length v < PROP_VALUE_MAX"
    and init_law: "idle w \<Longrightarrow> kvdb_init B w = (r, w') \<Longrightarrow>
      view w' = view w \<and> (if r < 0 then idle w' else opened w')"
    and uninit_law: "opened w \<Longrightarrow> idle (kvdb_uninit B w) \<and> view (kvdb_uninit B w) = view w"
    and set_law: "opened w \<Longrightarrow> good_key k \<Longrightarrow> n \<le> length v \<Longrightarrow> n < PROP_VALUE_MAX \<Longrightarrow>
      kvdb_set B w (Some (k @ NUL # m)) (Suc (length k)) (Some v) n f = (r, w') \<Longrightarrow>
      opened w' \<and> view w' = (if r < 0 then view w else (view w)(k \<mapsto> take n v))"
    and get_law: "opened w \<Longrightarrow> good_key k \<Longrightarrow>
      kvdb_get B w (Some (k @ NUL # m)) (Suc (length k)) True n = ((r, d), w') \<Longrightarrow>
      opened w' \<and> view w' = view w \<and>
      (case view w k of None \<Rightarrow> r < 0
       | Some v \<Rightarrow> if take n v = [] then r \<le> 0 else r = int (length (take n v)) \<and> d = take n v)"
    and delete_law: "opened w \<Longrightarrow> good_key k \<Longrightarrow>
      kvdb_delete B w (Some (k @ NUL # m)) (Suc (length k)) = (r, w') \<Longrightarrow>
      opened w' \<and> view w' = (if r < 0 then view w else (view w)(k := None))"
    and commit_law: "opened w \<Longrightarrow> kvdb_commit B w = (r, w') \<Longrightarrow> opened w' \<and> view w' = view w"
begin

lemma set_then_get:
  assumes "opened w" "good_key k" "n \<le> length v" "0 < n" "n < PROP_VALUE_MAX"
    and "kvdb_set B w (Some (k @ NUL # m)) (Suc (length k)) (Some v) n f = (r, w1)" "0 \<le> r"
    and "kvdb_get B w1 (Some (k @ NUL # m')) (Suc (length k)) True PROP_VALUE_MAX = ((r2, d), w2)"
  shows "r2 = int n \<and> d = take n v"
proof -
  from set_law [OF assms(1-3,5,6)] assms(7)
  have w1: "opened w1" "view w1 k = Some (take n v)" by auto
  have "v \<noteq> []" using assms(3,4) by auto
  with get_law [OF w1(1) assms(2,8)] w1(2) assms(3-5) show ?thesis by (auto simp: min_def)
qed

lemma delete_then_get:
  assumes "opened w" "good_key k"
    and "kvdb_delete B w (Some (k @ NUL # m)) (Suc (length k)) = (r, w1)" "0 \<le> r"
    and "kvdb_get B w1 (Some (k @ NUL # m')) (Suc (length k)) True n = ((r2, d), w2)"
  shows "r2 < 0"
proof -
  from delete_law [OF assms(1-3)] assms(4) have "opened w1" "view w1 k = None" by auto
  with get_law [OF this(1) assms(2,5)] show ?thesis by simp
qed

lemma set_frame:
  assumes "opened w" "good_key k" "n \<le> length v" "n < PROP_VALUE_MAX"
    and "kvdb_set B w (Some (k @ NUL # m)) (Suc (length k)) (Some v) n f = (r, w1)" "k' \<noteq> k"
  shows "view w1 k' = view w k'"
  using set_law [OF assms(1-5)] assms(6) by auto

end

text \<open>
  What the server relies on beyond this: it hands the backend whatever key memory, lengths and
  values a client has sent, so every operation keeps the storage usable for all arguments, and one
  that fails leaves the view alone. A get
  reports no more bytes than it stored, and they fit the buffer; a list that succeeds reports
  every key of the view; a value that is too long is refused.
\<close>

locale kv_service = kv_backend +
  assumes set_opened: "opened w \<Longrightarrow> kvdb_set B w (Some key) kl (Some v) n f = (r, w') \<Longrightarrow>
      opened w' \<and> is_int32 r \<and> (r < 0 \<longrightarrow> view w' = view w)"
    and get_opened: "opened w \<Longrightarrow> kvdb_get B w (Some key) kl hb n = ((r, d), w') \<Longrightarrow>
      opened w' \<and> view w' = view w \<and> (hb \<and> 0 < r \<longrightarrow> r = int (length d) \<and> length d \<le> n)"
    and delete_opened: "opened w \<Longrightarrow> kvdb_delete B w (Some key) kl = (r, w') \<Longrightarrow>
      opened w' \<and> is_int32 r \<and> (r < 0 \<longrightarrow> view w' = view w)"
    and list_opened: "opened w \<Longrightarrow> kvdb_list B w True = ((r, calls), w') \<Longrightarrow>
      opened w' \<and> view w' = view w \<and>
      (0 \<le> r \<longrightarrow> (\<forall>k v. view w k = Some v \<longrightarrow> (k, v) \<in> set calls))"
    and set_long: "PROP_VALUE_MAX \<le> n \<Longrightarrow> kvdb_set B w (Some key) kl (Some v) n f = (r, w') \<Longrightarrow>
      r < 0 \<and> w' = w"
    and commit_int: "opened w \<Longrightarrow> is_int32 (fst (kvdb_commit B w))"

text \<open>A backend that can always be opened: no allocation and no open of the storage fails.\<close>

locale kv_steady = kv_backend +
  assumes init_ok: "idle w \<Longrightarrow> 0 \<le> fst (kvdb_init B w)"

text \<open>
  A backend that checks the terminator and the length of a key before it changes anything, and
  that answers an existence test (a get without a buffer).
\<close>

locale kv_checked = kv_service +
  assumes set_checked: "kvdb_set B w (Some key) kl (Some v) n f = (r, w') \<Longrightarrow> 0 \<le> r \<Longrightarrow> kl < 2 ^ SIZE_BITS \<Longrightarrow>
      0 < kl \<and> key ! (kl - 1) = NUL"
    and delete_checked: "kvdb_delete B w (Some key) kl = (r, w') \<Longrightarrow> 0 \<le> r \<Longrightarrow> kl < 2 ^ SIZE_BITS \<Longrightarrow>
      0 < kl \<and> key ! (kl - 1) = NUL"
    and set_bad: "cstring k \<Longrightarrow> \<not> good_key k \<Longrightarrow> Suc (length k) < 2 ^ SIZE_BITS \<Longrightarrow>
      snd (kvdb_set B w (Some (k @ NUL # m)) (Suc (length k)) (Some v) n f) = w"
    and get_exists: "opened w \<Longrightarrow> good_key k \<Longrightarrow> view w k = Some v \<Longrightarrow> v \<noteq> [] \<Longrightarrow>
      0 < fst (fst (kvdb_get B w (Some (k @ NUL # m)) (Suc (length k)) False n))"

end
