(* ===== verification/Common.thy ===== *)
theory Common
  imports Keyspace
begin

text \<open>
  The typed property accessors, \<open>kvdb/common.c\<close>, over the binary accessors they are linked with
  (\<open>kvdb/direct.c\<close> or \<open>kvdb/client.c\<close>), which are the fields of a record. The locale
  \<open>property_store\<close> is the contract of those binary accessors; the round trips of the typed
  accessors are proved once in it.
\<close>

unbundle bit_operations_syntax

section \<open>The binary accessors and the process\<close>

text \<open>
  \<open>'w\<close> is the state behind the accessors. A key is a C string, \<open>None\<close> for a null pointer.
  \<open>property_get_binary\<close> takes whether the value pointer is not null and the buffer length; it
  returns its result with the bytes it stored. \<open>property_list_binary\<close> returns its result and the
  calls of the callback.
\<close>

record 'w papi =
  property_set_binary :: "'w \<Rightarrow> string option \<Rightarrow> cmem \<Rightarrow> nat \<Rightarrow> bool \<Rightarrow> int \<times> 'w"
  property_get_binary :: "'w \<Rightarrow> string option \<Rightarrow> bool \<Rightarrow> nat \<Rightarrow> (int \<times> string) \<times> 'w"
  property_list_binary :: "'w \<Rightarrow> (int \<times> (string \<times> string) list) \<times> 'w"

text \<open>
  A process has environment variables beside the store; \<open>env_nomem\<close> says that \<open>setenv\<close> runs out
  of memory.
\<close>

record 'w proc =
  penv :: "string \<Rightarrow> string option"
  env_nomem :: bool
  world :: 'w

definition setenv :: "'w proc \<Rightarrow> string \<Rightarrow> string \<Rightarrow> int \<times> 'w proc" where
  "setenv p key v =
     (if key = [] \<or> CHR ''='' \<in> set key then (- EINVAL, p)
      else if env_nomem p then (- ENOMEM, p)
      else (0, p\<lparr>penv := (penv p)(key \<mapsto> v)\<rparr>))"

text \<open>A result that is computed from the integer result and the buffer of \<open>property_get\<close>.\<close>

definition with_value ::
  "(fault + int \<times> string) \<times> 'w proc \<Rightarrow> (int \<Rightarrow> string \<Rightarrow> 'a) \<Rightarrow> (fault + 'a) \<times> 'w proc" where
  "with_value res f =
     (case res of (Inl e, p) \<Rightarrow> (Inl e, p) | (Inr (len, buf), p) \<Rightarrow> (Inr (f len buf), p))"

lemma with_value_Inr: "fst res = Inr (len, buf) \<Longrightarrow> fst (with_value res f) = Inr (f len buf)"
  by (cases res) (simp add: with_value_def)

section \<open>Hexadecimal digits\<close>

definition nibble2ascii :: "8 word \<Rightarrow> char" where
  "nibble2ascii nibble =
     (if nibble < 10 then char_of (48 + unat nibble) else char_of (97 + unat nibble - 10))"

definition ascii2nibble :: "char \<Rightarrow> int" where
  "ascii2nibble ascii =
     (if isdigit ascii then int (ccode ascii) - 48
      else if isxdigit ascii then int (tolower ascii) - 97 + 10
      else - ERANGE)"

section \<open>Strings\<close>

definition property_set_ow ::
  "'w papi \<Rightarrow> 'w proc \<Rightarrow> string \<Rightarrow> string option \<Rightarrow> bool \<Rightarrow> int \<times> 'w proc" where
  "property_set_ow P p key val oneway =
     (let v = (case val of None \<Rightarrow> [] | Some s \<Rightarrow> s)
      in case penv p key of
           Some _ \<Rightarrow> setenv p key v
         | None \<Rightarrow>
             (case property_set_binary P (world p) (Some key) (mem_of v) (strlen (mem_of v) + 1) oneway of
                (r, w) \<Rightarrow> (r, p\<lparr>world := w\<rparr>)))"

definition property_set :: "'w papi \<Rightarrow> 'w proc \<Rightarrow> string \<Rightarrow> string option \<Rightarrow> int \<times> 'w proc" where
  "property_set P p key val = property_set_ow P p key val False"

definition property_set_oneway :: "'w papi \<Rightarrow> 'w proc \<Rightarrow> string \<Rightarrow> string option \<Rightarrow> int \<times> 'w proc" where
  "property_set_oneway P p key val = property_set_ow P p key val True"

text \<open>
  \<open>property_get\<close>: the value pointer is \<open>None\<close> when null and otherwise the size of the object it
  points to; the result is the returned number with the string in the buffer. When the store
  reports a value, its terminator is written through the value pointer without a test.
\<close>

definition property_get ::
  "'w papi \<Rightarrow> 'w proc \<Rightarrow> string \<Rightarrow> nat option \<Rightarrow> string option \<Rightarrow> (fault + int \<times> string) \<times> 'w proc" where
  "property_get P p key buf default_value =
     (case penv p key of
        Some env \<Rightarrow>
          ((if PROP_VALUE_MAX \<le> length env then Inr (- E2BIG, [])
            else case buf of None \<Rightarrow> Inr (int (length env), [])
            | Some cap \<Rightarrow> if cap < length env + 1 then Inl OutOfBounds
                else Inr (int (length env), env)), p)
      | None \<Rightarrow>
          (case property_get_binary P (world p) (Some key) (buf \<noteq> None) PROP_VALUE_MAX of
             ((ret, d), w) \<Rightarrow>
               ((if ret \<le> 0 then
                   (case default_value of None \<Rightarrow> Inr (- EINVAL, [])
                    | Some s \<Rightarrow>
                        (case buf of None \<Rightarrow> Inr (int (length s), [])
                         | Some cap \<Rightarrow> if cap < length s + 1 then Inl OutOfBounds
                             else Inr (int (length s), s)))
                 else
                   (case buf of None \<Rightarrow> Inl NullDeref
                    | Some cap \<Rightarrow>
                        if cap \<le> nat ret then Inl OutOfBounds
                        else Inr (int (strlen (take (nat ret) d @ [NUL])), cstr (take (nat ret) d @ [NUL])))),
                p\<lparr>world := w\<rparr>)))"

text \<open>
  With \<open>__BIONIC_FORTIFY\<close> the header \<open>cutils/properties.h\<close> refuses calls at compile time whose buffer is
  known to be too small: \<open>known\<close> says whether the compiler knows the size \<open>cap\<close> of the buffer; an unknown size counts as
  the largest \<open>size_t\<close>. \<open>None\<close> is a program that is not compiled. The variant for clang states the condition as an
  attribute.
\<close>

definition property_get_fortified ::
  "bool \<Rightarrow> 'w papi \<Rightarrow> 'w proc \<Rightarrow> string \<Rightarrow> nat \<Rightarrow> string option \<Rightarrow> ((fault + int \<times> string) \<times> 'w proc) option" where
  "property_get_fortified known P p key cap default_value =
     (let bos = (if known then cap else 2 ^ SIZE_BITS - 1)
      in if bos < PROP_VALUE_MAX then None else Some (property_get P p key (Some cap) default_value))"

definition clang_error_if :: "bool \<Rightarrow> nat \<Rightarrow> bool" where
  "clang_error_if known cap \<longleftrightarrow> known \<and> cap < PROP_VALUE_MAX"

lemma fortified_clang: "property_get_fortified known P p key cap d = None \<longleftrightarrow> clang_error_if known cap"
  by (simp add: property_get_fortified_def clang_error_if_def kvdb_consts SIZE_BITS_def)

lemma property_get_larger:
  assumes "fst (property_get P p k (Some c) d) = Inr x" "c \<le> cap"
  shows "property_get P p k (Some cap) d = property_get P p k (Some c) d"
  using assms by (auto simp: property_get_def split: option.splits prod.splits if_splits)

text \<open>
  \<open>property_list\<close> terminates each value in place, one byte behind its end. How many bytes lie at the value
  pointer is up to the store that makes the call, so the calls are checked against \<open>room\<close>, the size
  of that memory by key and value. The calls before the first fault have been made when it happens.
\<close>

definition property_list_fn :: "nat \<Rightarrow> string \<Rightarrow> string \<Rightarrow> fault + string \<times> string" where
  "property_list_fn room key val =
     (if room \<le> length val then Inl OutOfBounds else Inr (key, cstr (val @ [NUL])))"

fun list_calls :: "(string \<Rightarrow> string \<Rightarrow> nat) \<Rightarrow> (string \<times> string) list \<Rightarrow> fault + (string \<times> string) list" where
  "list_calls room [] = Inr []"
| "list_calls room ((k, v) # calls) =
     (case property_list_fn (room k v) k v of
        Inl f \<Rightarrow> Inl f
      | Inr c \<Rightarrow> (case list_calls room calls of Inl f \<Rightarrow> Inl f | Inr cs \<Rightarrow> Inr (c # cs)))"

definition property_list ::
  "(string \<Rightarrow> string \<Rightarrow> nat) \<Rightarrow> 'w papi \<Rightarrow> 'w proc \<Rightarrow> (fault + int \<times> (string \<times> string) list) \<times> 'w proc" where
  "property_list room P p =
     (case property_list_binary P (world p) of
        ((r, calls), w) \<Rightarrow>
          (case list_calls room calls of Inl f \<Rightarrow> Inl f | Inr cs \<Rightarrow> Inr (r, cs), p\<lparr>world := w\<rparr>))"

lemma list_calls_ok:
  "\<forall>(k, v) \<in> set calls. length v < room k v \<Longrightarrow>
   list_calls room calls = Inr (map (\<lambda>(k, v). (k, cstr (v @ [NUL]))) calls)"
  by (induction room calls rule: list_calls.induct) (auto simp: property_list_fn_def)

lemma list_calls_fault:
  "(k, v) \<in> set calls \<Longrightarrow> room k v \<le> length v \<Longrightarrow> list_calls room calls = Inl OutOfBounds"
  by (induction calls) (auto simp: property_list_fn_def)

lemma property_list_ok:
  assumes "property_list_binary P (world p) = ((r, calls), w)" "\<forall>(k, v) \<in> set calls. length v < room k v"
  shows "property_list room P p = (Inr (r, map (\<lambda>(k, v). (k, cstr (v @ [NUL]))) calls), p\<lparr>world := w\<rparr>)"
  using assms by (simp add: property_list_def list_calls_ok)

lemma property_list_fault:
  assumes "property_list_binary P (world p) = ((r, calls), w)" "(k, v) \<in> set calls" "room k v \<le> length v"
  shows "property_list room P p = (Inl OutOfBounds, p\<lparr>world := w\<rparr>)"
  using assms by (simp add: property_list_def list_calls_fault [of k v])

section \<open>Booleans\<close>

definition property_set_bool_ow ::
  "'w papi \<Rightarrow> 'w proc \<Rightarrow> string \<Rightarrow> 8 word \<Rightarrow> bool \<Rightarrow> int \<times> 'w proc" where
  "property_set_bool_ow P p key val oneway =
     property_set_ow P p key (Some (if val \<noteq> 0 then ''true'' else ''false'')) oneway"

definition property_set_bool :: "'w papi \<Rightarrow> 'w proc \<Rightarrow> string \<Rightarrow> 8 word \<Rightarrow> int \<times> 'w proc" where
  "property_set_bool P p key val = property_set_bool_ow P p key val False"

definition property_set_bool_oneway :: "'w papi \<Rightarrow> 'w proc \<Rightarrow> string \<Rightarrow> 8 word \<Rightarrow> int \<times> 'w proc" where
  "property_set_bool_oneway P p key val = property_set_bool_ow P p key val True"

definition bool_of_value :: "8 word \<Rightarrow> int \<Rightarrow> string \<Rightarrow> 8 word" where
  "bool_of_value default_value len buf =
     (if len = 1 then
        (let ch = buf ! 0 in
         if ch = CHR ''0'' \<or> ch = CHR ''n'' then 0
         else if ch = CHR ''1'' \<or> ch = CHR ''y'' then 1
         else default_value)
      else if 1 < len then
        (if buf = ''no'' \<or> buf = ''false'' \<or> buf = ''off'' then 0
         else if buf = ''yes'' \<or> buf = ''true'' \<or> buf = ''on'' then 1
         else default_value)
      else default_value)"

definition property_get_bool ::
  "'w papi \<Rightarrow> 'w proc \<Rightarrow> string \<Rightarrow> 8 word \<Rightarrow> (fault + 8 word) \<times> 'w proc" where
  "property_get_bool P p key default_value =
     with_value (property_get P p key (Some PROP_VALUE_MAX) None) (bool_of_value default_value)"

section \<open>Integers\<close>

definition property_set_int32_ow ::
  "'w papi \<Rightarrow> 'w proc \<Rightarrow> string \<Rightarrow> 32 word \<Rightarrow> bool \<Rightarrow> int \<times> 'w proc" where
  "property_set_int32_ow P p key val oneway =
     property_set_ow P p key (Some (snprintf 32 (show_int (sint val)))) oneway"

definition property_set_int32 :: "'w papi \<Rightarrow> 'w proc \<Rightarrow> string \<Rightarrow> 32 word \<Rightarrow> int \<times> 'w proc" where
  "property_set_int32 P p key val = property_set_int32_ow P p key val False"

definition property_set_int32_oneway :: "'w papi \<Rightarrow> 'w proc \<Rightarrow> string \<Rightarrow> 32 word \<Rightarrow> int \<times> 'w proc" where
  "property_set_int32_oneway P p key val = property_set_int32_ow P p key val True"

text \<open>The result of \<open>strtol\<close>, of \<open>long_bit\<close> bits, is converted to 32 bits.\<close>

definition int32_of_value :: "nat \<Rightarrow> 32 word \<Rightarrow> int \<Rightarrow> string \<Rightarrow> 32 word" where
  "int32_of_value long_bit default_value len val =
     (if len < 0 then default_value
      else case strtol long_bit val of
             (ret, end, errno) \<Rightarrow>
               if errno \<noteq> 0 \<or> end \<noteq> [] \<or> val = end then default_value else word_of_int ret)"

definition property_get_int32 ::
  "nat \<Rightarrow> 'w papi \<Rightarrow> 'w proc \<Rightarrow> string \<Rightarrow> 32 word \<Rightarrow> (fault + 32 word) \<times> 'w proc" where
  "property_get_int32 long_bit P p key default_value =
     with_value (property_get P p key (Some PROP_VALUE_MAX) None) (int32_of_value long_bit default_value)"

definition property_set_int64_ow ::
  "'w papi \<Rightarrow> 'w proc \<Rightarrow> string \<Rightarrow> 64 word \<Rightarrow> bool \<Rightarrow> int \<times> 'w proc" where
  "property_set_int64_ow P p key val oneway =
     property_set_ow P p key (Some (snprintf 32 (show_int (sint val)))) oneway"

definition property_set_int64 :: "'w papi \<Rightarrow> 'w proc \<Rightarrow> string \<Rightarrow> 64 word \<Rightarrow> int \<times> 'w proc" where
  "property_set_int64 P p key val = property_set_int64_ow P p key val False"

definition property_set_int64_oneway :: "'w papi \<Rightarrow> 'w proc \<Rightarrow> string \<Rightarrow> 64 word \<Rightarrow> int \<times> 'w proc" where
  "property_set_int64_oneway P p key val = property_set_int64_ow P p key val True"

definition int64_of_value :: "64 word \<Rightarrow> int \<Rightarrow> string \<Rightarrow> 64 word" where
  "int64_of_value default_value len val =
     (if len < 0 then default_value
      else case strtol 64 val of
             (ret, end, errno) \<Rightarrow>
               if errno \<noteq> 0 \<or> end \<noteq> [] \<or> val = end then default_value else word_of_int ret)"

definition property_get_int64 ::
  "'w papi \<Rightarrow> 'w proc \<Rightarrow> string \<Rightarrow> 64 word \<Rightarrow> (fault + 64 word) \<times> 'w proc" where
  "property_get_int64 P p key default_value =
     with_value (property_get P p key (Some PROP_VALUE_MAX) None) (int64_of_value default_value)"

section \<open>Byte buffers\<close>

text \<open>The loop of \<open>property_set_buffer_\<close> from index \<open>i\<close>: two digits per byte.\<close>

fun encode_loop :: "nat \<Rightarrow> nat \<Rightarrow> 8 word list \<Rightarrow> string" where
  "encode_loop i buf_size (b # tmp) =
     (if i < buf_size
      then nibble2ascii (drop_bit 4 b) # nibble2ascii (b AND 15) # encode_loop (i + 2) buf_size tmp
      else [])"
| "encode_loop i buf_size [] = []"

definition property_set_buffer_ow ::
  "'w papi \<Rightarrow> 'w proc \<Rightarrow> string \<Rightarrow> 8 word list \<Rightarrow> nat \<Rightarrow> bool \<Rightarrow> int \<times> 'w proc" where
  "property_set_buffer_ow P p key val sz oneway =
     (let buf_size = size_double sz in
      if PROP_VALUE_MAX \<le> buf_size then (- E2BIG, p)
      else property_set_ow P p key (Some (encode_loop 0 buf_size val)) oneway)"

definition property_set_buffer ::
  "'w papi \<Rightarrow> 'w proc \<Rightarrow> string \<Rightarrow> 8 word list \<Rightarrow> nat \<Rightarrow> int \<times> 'w proc" where
  "property_set_buffer P p key val sz = property_set_buffer_ow P p key val sz False"

definition property_set_buffer_oneway ::
  "'w papi \<Rightarrow> 'w proc \<Rightarrow> string \<Rightarrow> 8 word list \<Rightarrow> nat \<Rightarrow> int \<times> 'w proc" where
  "property_set_buffer_oneway P p key val sz = property_set_buffer_ow P p key val sz False"

text \<open>
  The loop of \<open>property_get_buffer\<close> over the memory of the string from index \<open>i\<close>; \<open>out\<close> is what
  the caller's buffer holds. An odd number of digits reads the terminator as the second digit.
\<close>

fun decode_loop :: "cmem \<Rightarrow> nat \<Rightarrow> nat \<Rightarrow> 8 word list \<Rightarrow> int \<times> 8 word list" where
  "decode_loop (c # d # buf) i buf_size out =
     (if c = NUL then (int (i div 2), out)
      else if buf_size \<le> i then (- E2BIG, out)
      else if ascii2nibble c < 0 then (ascii2nibble c, out)
      else (let hi = push_bit 4 (word_of_int (ascii2nibble c)) in
            if ascii2nibble d < 0 then (ascii2nibble d, out @ [hi])
            else decode_loop buf (i + 2) buf_size (out @ [hi OR word_of_int (ascii2nibble d)])))"
| "decode_loop buf i buf_size out = (int (i div 2), out)"

definition property_get_buffer ::
  "'w papi \<Rightarrow> 'w proc \<Rightarrow> string \<Rightarrow> nat \<Rightarrow> (fault + int \<times> 8 word list) \<times> 'w proc" where
  "property_get_buffer P p key sz =
     with_value (property_get P p key (Some PROP_VALUE_MAX) None)
       (\<lambda>ret buf. if ret < 0 then (ret, []) else decode_loop (mem_of buf) 0 (size_double sz) [])"

section \<open>Hexadecimal round trip\<close>

lemma ascii2nibble_nibble2ascii:
  assumes "n < 16"
  shows "ascii2nibble (nibble2ascii n) = int (unat n)" "nibble2ascii n \<noteq> NUL"
proof -
  have u: "unat n < 16" using assms by (simp add: word_less_nat_alt)
  have ten: "n < 10 \<longleftrightarrow> unat n < 10" by (simp add: word_less_nat_alt)
  have code: "ccode (nibble2ascii n) = (if unat n < 10 then 48 + unat n else 87 + unat n)"
    using u by (simp add: nibble2ascii_def ten)
  show "ascii2nibble (nibble2ascii n) = int (unat n)"
    using u by (simp add: ascii2nibble_def ctype_defs code)
  show "nibble2ascii n \<noteq> NUL"
    using code by (auto split: if_splits)
qed

lemma nibbles_small: "drop_bit 4 (b :: 8 word) < 16" "(b :: 8 word) AND 15 < 16"
proof -
  have "unat b < 256" using unsigned_less [of b, where 'a = nat] by simp
  then have "unat (drop_bit 4 b) < 16"
    by (simp add: unat_drop_bit_eq drop_bit_eq_div [of 4 "unat b"])
  then show "drop_bit 4 b < 16" by (simp add: word_less_nat_alt)
  have "unat (b AND 15) \<le> unat (15 :: 8 word)"
    by (rule word_and_le1 [THEN word_le_nat_alt [THEN iffD1]])
  then show "b AND 15 < 16" by (simp add: word_less_nat_alt)
qed

lemma nibbles_join: "push_bit 4 (drop_bit 4 b) OR (b AND 15) = (b :: 8 word)"
proof -
  have "(15 :: 8 word) = mask 4" by (simp add: mask_eq_exp_minus_1)
  then show ?thesis
    by (auto simp: bit_eq_iff bit_simps)
qed

lemma cstring_encode_loop: "cstring (encode_loop i n bs)"
  by (induction i n bs rule: encode_loop.induct)
     (auto simp: ascii2nibble_nibble2ascii(2) nibbles_small)

lemma length_encode_loop: "length (encode_loop i (i + 2 * k) bs) \<le> 2 * k"
proof (induction bs arbitrary: i k)
  case (Cons b bs)
  show ?case
  proof (cases k)
    case (Suc j)
    with Cons [of "i + 2" j] show ?thesis by (simp add: algebra_simps)
  qed simp
qed simp

lemma decode_encode:
  assumes "n = i + 2 * k" "k \<le> length bs" "n \<le> m"
  shows "decode_loop (encode_loop i n bs @ [NUL]) i m out = (int (n div 2), out @ take k bs)"
  using assms
proof (induction bs arbitrary: i k out)
  case (Cons b bs)
  show ?case
  proof (cases k)
    case 0
    with Cons.prems show ?thesis by simp
  next
    case (Suc j)
    have nib: "word_of_int (ascii2nibble (nibble2ascii (drop_bit 4 b))) = drop_bit 4 b"
      "word_of_int (ascii2nibble (nibble2ascii (b AND 15))) = b AND 15"
      by (simp_all add: ascii2nibble_nibble2ascii nibbles_small)
    have pos: "\<not> ascii2nibble (nibble2ascii (drop_bit 4 b)) < 0"
      "\<not> ascii2nibble (nibble2ascii (b AND 15)) < 0"
      by (simp_all add: ascii2nibble_nibble2ascii nibbles_small)
    have IH: "decode_loop (encode_loop (i + 2) n bs @ [NUL]) (i + 2) m (out @ [b]) =
        (int (n div 2), (out @ [b]) @ take j bs)"
      by (rule Cons.IH) (use Cons.prems Suc in auto)
    from Cons.prems Suc have "i < n" "\<not> m \<le> i" by auto
    with IH Suc show ?thesis
      by (simp add: Let_def pos nib nibbles_join ascii2nibble_nibble2ascii(2) nibbles_small)
  qed
qed simp

section \<open>The contract of the binary accessors\<close>

text \<open>
  The state behind the accessors has an abstract view as a map from keys to values, and an
  invariant \<open>ok\<close>. A set with a legal length stores exactly its bytes under its key or changes
  nothing; \<open>sync\<close> says for which values of \<open>oneway\<close> its result tells which. A set with an illegal
  length fails; a get into a full-size buffer returns the stored bytes, or a result that is not
  positive when there are none.
\<close>

locale property_store =
  fixes P :: "'w papi"
    and view :: "'w \<Rightarrow> string \<Rightarrow> string option"
    and ok :: "'w \<Rightarrow> bool"
    and good_key :: "string \<Rightarrow> bool"
    and sync :: "bool \<Rightarrow> bool"
  assumes view_bound: "ok w \<Longrightarrow> view w k = Some v \<Longrightarrow> length v < PROP_VALUE_MAX"
    and set_any: "ok w \<Longrightarrow> good_key k \<Longrightarrow> 0 < n \<Longrightarrow> n < PROP_VALUE_MAX \<Longrightarrow> n \<le> length v \<Longrightarrow>
      property_set_binary P w (Some k) v n oneway = (r, w') \<Longrightarrow>
      ok w' \<and> (view w' = view w \<or> view w' = (view w)(k \<mapsto> take n v))"
    and set_law: "ok w \<Longrightarrow> sync oneway \<Longrightarrow> good_key k \<Longrightarrow> 0 < n \<Longrightarrow> n < PROP_VALUE_MAX \<Longrightarrow> n \<le> length v \<Longrightarrow>
      property_set_binary P w (Some k) v n oneway = (r, w') \<Longrightarrow>
      view w' = (if r < 0 then view w else (view w)(k \<mapsto> take n v))"
    and set_reject: "good_key k \<Longrightarrow> n = 0 \<or> PROP_VALUE_MAX \<le> n \<Longrightarrow>
      property_set_binary P w (Some k) v n oneway = (- E2BIG, w)"
    and get_law: "ok w \<Longrightarrow> good_key k \<Longrightarrow>
      property_get_binary P w (Some k) True PROP_VALUE_MAX = ((r, d), w') \<Longrightarrow>
      ok w' \<and> view w' = view w \<and>
      (case view w k of None \<Rightarrow> r \<le> 0
       | Some v \<Rightarrow> if v = [] then r \<le> 0 else r = int (length v) \<and> d = v)"
begin

lemma set_ow_store:
  assumes "ok (world p)" "good_key k" "cstring s" "penv p k = None"
    and "property_set_ow P p k (Some s) oneway = (r, p1)" "0 \<le> r" "sync oneway"
  shows "ok (world p1) \<and> view (world p1) = (view (world p))(k \<mapsto> mem_of s) \<and> penv p1 k = None
    \<and> length s + 1 < PROP_VALUE_MAX"
proof -
  let ?n = "length s + 1"
  obtain q w where b: "property_set_binary P (world p) (Some k) (mem_of s) ?n oneway = (q, w)"
    by (cases "property_set_binary P (world p) (Some k) (mem_of s) ?n oneway")
  with assms have q: "r = q" "p1 = p\<lparr>world := w\<rparr>" by (auto simp: property_set_ow_def)
  have n: "?n < PROP_VALUE_MAX"
  proof (rule ccontr)
    assume "\<not> ?n < PROP_VALUE_MAX"
    with set_reject [OF assms(2), of ?n "world p" "mem_of s" oneway] b assms(6) q show False
      by (simp add: errno_defs)
  qed
  have len: "0 < ?n" "?n \<le> length (mem_of s)" by (simp_all add: mem_of_def)
  from set_law [OF assms(1,7,2) len(1) n len(2) b] set_any [OF assms(1,2) len(1) n len(2) b]
    q n assms(4,6) show ?thesis by (simp add: mem_of_def)
qed

lemma get_stored:
  assumes "ok (world p)" "good_key k" "penv p k = None" "view (world p) k = Some (mem_of s)" "cstring s"
  shows "\<exists>w'. property_get P p k (Some PROP_VALUE_MAX) d = (Inr (int (length s), s), p\<lparr>world := w'\<rparr>)
    \<and> ok w' \<and> view w' = view (world p)"
proof -
  obtain r b w where g: "property_get_binary P (world p) (Some k) True PROP_VALUE_MAX = ((r, b), w)"
    by (metis prod.exhaust)
  from get_law [OF assms(1,2) g] assms(4)
  have r: "r = int (length s + 1)" "b = mem_of s" and w: "ok w" "view w = view (world p)"
    by (simp_all add: mem_of_def)
  have "length s + 1 < PROP_VALUE_MAX"
    using view_bound [OF assms(1,4)] by (simp add: mem_of_def)
  with g r assms(3,5)
  have "property_get P p k (Some PROP_VALUE_MAX) d = (Inr (int (length s), s), p\<lparr>world := w\<rparr>)"
    by (simp add: property_get_def mem_of_def strlen_def nat_add_distrib)
  with w show ?thesis by blast
qed

lemma set_keeps:
  assumes "ok (world p)" "good_key k" "cstring s" "penv p k = None"
  shows "ok (world (snd (property_set_ow P p k (Some s) oneway))) \<and> penv (snd (property_set_ow P p k (Some s) oneway)) = penv p"
proof -
  let ?n = "length s + 1"
  obtain q w where b: "property_set_binary P (world p) (Some k) (mem_of s) ?n oneway = (q, w)"
    by (cases "property_set_binary P (world p) (Some k) (mem_of s) ?n oneway")
  have "ok w"
  proof (cases "?n < PROP_VALUE_MAX")
    case True
    have "0 < ?n" "?n \<le> length (mem_of s)" by (simp_all add: mem_of_def)
    from set_any [OF assms(1,2) this(1) True this(2) b] show ?thesis by simp
  next
    case False
    with set_reject [OF assms(2), of ?n "world p" "mem_of s" oneway] b assms(1) show ?thesis by simp
  qed
  with b assms(3,4) show ?thesis by (simp add: property_set_ow_def)
qed

text \<open>What was set is what is read, in the store as in the environment.\<close>

lemma set_get:
  assumes "ok (world p)" "good_key k" "cstring s" "length s < PROP_VALUE_MAX"
    and "property_set_ow P p k (Some s) oneway = (r, p1)" "0 \<le> r" "sync oneway"
  shows "fst (property_get P p1 k (Some PROP_VALUE_MAX) d) = Inr (int (length s), s)"
proof (cases "penv p k")
  case None
  from set_ow_store [OF assms(1-3) None assms(5-7)]
  have "ok (world p1)" "view (world p1) k = Some (mem_of s)" "penv p1 k = None" by auto
  from get_stored [OF this(1) assms(2) this(3,2) assms(3), of d] show ?thesis by auto
next
  case (Some e)
  with assms(5,6) have "penv p1 k = Some s"
    by (auto simp: property_set_ow_def setenv_def errno_defs split: if_splits)
  with assms(4) show ?thesis by (simp add: property_get_def)
qed

text \<open>The typed accessors: what is read back is the value that was set.\<close>

lemma set_get_bool:
  assumes "ok (world p)" "good_key k" "sync False"
    and "property_set_bool P p k b = (r, p1)" "0 \<le> r"
  shows "fst (property_get_bool P p1 k d) = Inr (if b = 0 then 0 else 1)"
proof -
  let ?s = "if b \<noteq> 0 then ''true'' else ''false''"
  have "cstring ?s" "length ?s < PROP_VALUE_MAX" by (auto simp: kvdb_consts)
  note g = set_get [OF assms(1,2) this, of False r p1 None]
  have "property_set_ow P p k (Some ?s) False = (r, p1)"
    using assms(4) by (simp add: property_set_bool_def property_set_bool_ow_def)
  from g [OF this assms(5,3)] show ?thesis
    by (simp add: property_get_bool_def with_value_Inr bool_of_value_def split: if_splits)
qed

lemma set_get_int:
  assumes "ok (world p)" "good_key k" "sync oneway" "- (10 ^ 20) < i" "i < 10 ^ 20"
    and "property_set_ow P p k (Some (snprintf 32 (show_int i))) oneway = (r, p1)" "0 \<le> r"
  shows "fst (property_get P p1 k (Some PROP_VALUE_MAX) d) = Inr (int (length (show_int i)), show_int i)"
proof -
  have "length (show_int i) \<le> 21"
    using length_show_int [of 19 i] assms(4,5) by simp
  then have "snprintf 32 (show_int i) = show_int i" "length (show_int i) < PROP_VALUE_MAX"
    by (simp_all add: snprintf_def kvdb_consts)
  with set_get [OF assms(1,2) cstring_show_int, of i oneway r p1 d] assms(3,6,7) show ?thesis
    by simp
qed

lemma set_get_int32:
  assumes "ok (world p)" "good_key k" "sync False" "32 \<le> long_bit"
    and "property_set_int32 P p k i = (r, p1)" "0 \<le> r"
  shows "fst (property_get_int32 long_bit P p1 k d) = Inr i"
proof -
  have b: "- (2 ^ 31) \<le> sint i" "sint i < 2 ^ 31"
    using sint_range_size [of i] by (simp_all add: word_size)
  then have "- (10 ^ 20) < sint i" "sint i < 10 ^ 20" by simp_all
  note g = set_get_int [OF assms(1-3) this, of r p1 None]
  have "(2 :: int) ^ 31 \<le> 2 ^ (long_bit - 1)" using assms(4) by (intro power_increasing) auto
  with b have "strtol long_bit (show_int (sint i)) = (sint i, [], 0)"
    by (intro strtol_show_int) auto
  moreover have "property_set_ow P p k (Some (snprintf 32 (show_int (sint i)))) False = (r, p1)"
    using assms(5,6) by (simp add: property_set_int32_def property_set_int32_ow_def)
  ultimately show ?thesis
    using with_value_Inr [OF g, of "int32_of_value long_bit d"] assms(5,6)
    by (simp add: property_get_int32_def int32_of_value_def)
qed

lemma set_get_int64:
  assumes "ok (world p)" "good_key k" "sync False"
    and "property_set_int64 P p k i = (r, p1)" "0 \<le> r"
  shows "fst (property_get_int64 P p1 k d) = Inr i"
proof -
  have b: "- (2 ^ 63) \<le> sint i" "sint i < 2 ^ 63"
    using sint_range_size [of i] by (simp_all add: word_size)
  then have "- (10 ^ 20) < sint i" "sint i < 10 ^ 20" by simp_all
  note g = set_get_int [OF assms(1-3) this, of r p1 None]
  from b have "strtol 64 (show_int (sint i)) = (sint i, [], 0)"
    by (intro strtol_show_int) auto
  moreover have "property_set_ow P p k (Some (snprintf 32 (show_int (sint i)))) False = (r, p1)"
    using assms(4,5) by (simp add: property_set_int64_def property_set_int64_ow_def)
  ultimately show ?thesis
    using with_value_Inr [OF g, of "int64_of_value d"] assms(4,5)
    by (simp add: property_get_int64_def int64_of_value_def)
qed

text \<open>
  A buffer of at most half the address space is read back into a buffer that is at least as long.
\<close>

lemma set_get_buffer:
  assumes "ok (world p)" "good_key k" "sync False"
    and "n \<le> length bs" "n \<le> sz" "2 * sz < 2 ^ SIZE_BITS"
    and "property_set_buffer P p k bs n = (r, p1)" "0 \<le> r"
  shows "fst (property_get_buffer P p1 k sz) = Inr (int n, take n bs)"
proof -
  have d: "size_double n = 2 * n" "size_double sz = 2 * sz"
    using assms(5,6) by (simp_all add: size_double_small)
  let ?s = "encode_loop 0 (2 * n) bs"
  from assms(7,8) d have set: "2 * n < PROP_VALUE_MAX" "property_set_ow P p k (Some ?s) False = (r, p1)"
    by (auto simp: property_set_buffer_def property_set_buffer_ow_def Let_def errno_defs split: if_splits)
  have "length ?s < PROP_VALUE_MAX" using length_encode_loop [of 0 n bs] set(1) by simp
  note g = set_get [OF assms(1,2) cstring_encode_loop this set(2) assms(8,3), of None]
  have "decode_loop (?s @ [NUL]) 0 (2 * sz) [] = (int n, take n bs)"
    using decode_encode [of "2 * n" 0 n bs "2 * sz" "[]"] assms(4,5) by simp
  with d show ?thesis by (simp add: property_get_buffer_def with_value_Inr [OF g] mem_of_def)
qed

text \<open>A set reaches no other key.\<close>

lemma set_frame_get:
  assumes "ok (world p)" "good_key k" "good_key k'" "k' \<noteq> k" "cstring s" "cstring s'"
    and "property_set_ow P p k (Some s) oneway = (r, p1)"
    and "penv p k' = None" "view (world p) k' = Some (mem_of s')"
  shows "fst (property_get P p1 k' (Some PROP_VALUE_MAX) d) = Inr (int (length s'), s')"
proof -
  have "ok (world p1) \<and> view (world p1) k' = Some (mem_of s') \<and> penv p1 k' = None"
  proof (cases "penv p k")
    case (Some e)
    with assms show ?thesis by (auto simp: property_set_ow_def setenv_def split: if_splits)
  next
    case None
    obtain q w where b: "property_set_binary P (world p) (Some k) (mem_of s) (length s + 1) oneway = (q, w)"
      by (metis prod.exhaust)
    with None assms(5,7) have p1: "p1 = p\<lparr>world := w\<rparr>" by (simp add: property_set_ow_def)
    show ?thesis
    proof (cases "length s + 1 < PROP_VALUE_MAX")
      case True
      from set_any [OF assms(1,2) _ True _ b] assms(4,8,9) p1 show ?thesis
        by (auto simp: mem_of_def)
    next
      case False
      with set_reject [OF assms(2), of "length s + 1" "world p" "mem_of s" oneway] b assms(1,8,9) p1
      show ?thesis by simp
    qed
  qed
  with get_stored [OF _ assms(3) _ _ assms(6), of p1 d] show ?thesis by auto
qed

text \<open>An absent key reads as the default, and no read of a full-size buffer faults.\<close>

lemma get_absent:
  assumes "ok (world p)" "good_key k" "penv p k = None" "view (world p) k = None"
    and "length s < PROP_VALUE_MAX"
  shows "fst (property_get P p k (Some PROP_VALUE_MAX) (Some s)) = Inr (int (length s), s)"
    and "fst (property_get P p k (Some PROP_VALUE_MAX) None) = Inr (- EINVAL, [])"
proof -
  obtain r b w where g: "property_get_binary P (world p) (Some k) True PROP_VALUE_MAX = ((r, b), w)"
    by (metis prod.exhaust)
  from get_law [OF assms(1,2) g] assms(4) have "r \<le> 0" by simp
  with g assms(3,5)
  show "fst (property_get P p k (Some PROP_VALUE_MAX) (Some s)) = Inr (int (length s), s)"
    and "fst (property_get P p k (Some PROP_VALUE_MAX) None) = Inr (- EINVAL, [])"
    by (simp_all add: property_get_def)
qed

lemma get_no_fault:
  assumes "ok (world p)" "good_key k" "\<And>s. d = Some s \<Longrightarrow> length s < PROP_VALUE_MAX"
  shows "\<exists>len s. fst (property_get P p k (Some PROP_VALUE_MAX) d) = Inr (len, s)
    \<and> len < int PROP_VALUE_MAX \<and> (0 \<le> len \<longrightarrow> len = int (length s))"
proof (cases "penv p k")
  case (Some e)
  then show ?thesis by (auto simp: property_get_def kvdb_consts errno_defs)
next
  case None
  obtain r b w where g: "property_get_binary P (world p) (Some k) True PROP_VALUE_MAX = ((r, b), w)"
    by (metis prod.exhaust)
  show ?thesis
  proof (cases "r \<le> 0")
    case True
    with None g assms(3) show ?thesis
      by (auto simp: property_get_def kvdb_consts errno_defs split: option.splits)
  next
    case False
    with get_law [OF assms(1,2) g] obtain v where v: "view (world p) k = Some v" "r = int (length v)" "b = v"
      by (auto split: option.splits if_splits)
    let ?m = "take (nat r) b @ [NUL]"
    have "strlen ?m \<le> length v"
      using v unfolding strlen_def cstr_def
      by (simp add: takeWhile_tail length_takeWhile_le)
    with False None g v view_bound [OF assms(1) v(1)] show ?thesis
      by (simp add: property_get_def strlen_def)
  qed
qed

lemma fortified_no_fault:
  assumes "ok (world p)" "good_key k" "\<And>s. d = Some s \<Longrightarrow> length s < PROP_VALUE_MAX"
    and "property_get_fortified True P p k cap d = Some (res, p')"
  shows "\<exists>len s. res = Inr (len, s)"
proof -
  have cap: "PROP_VALUE_MAX \<le> cap" "property_get P p k (Some cap) d = (res, p')"
    using assms(4) by (auto simp: property_get_fortified_def split: if_splits)
  from get_no_fault [OF assms(1-3)] obtain len s where
    g: "fst (property_get P p k (Some PROP_VALUE_MAX) d) = Inr (len, s)" by blast
  from property_get_larger [OF g cap(1)] g cap(2) show ?thesis by (metis fst_conv)
qed

end

section \<open>Numbers that do not fit\<close>

text \<open>
  \<open>property_get_int32\<close> reduces a decimal value that a \<open>long\<close> can hold to 32 bits, so that on a platform with a
  wider \<open>long\<close> a number out of range is neither clamped nor replaced by the default.
\<close>

lemma int32_truncates:
  assumes "- (2 ^ (long_bit - 1)) \<le> i" "i < 2 ^ (long_bit - 1)" "0 \<le> len"
  shows "int32_of_value long_bit d len (show_int i) = word_of_int i"
  using strtol_show_int [OF assms(1,2)] assms(3) by (simp add: int32_of_value_def)

text \<open>
  The size of a buffer is doubled as an unsigned number: a buffer of half the address space passes the
  limit and is stored as the empty string.
\<close>

lemma buffer_size_wraps: "property_set_buffer P p k bs (2 ^ (SIZE_BITS - 1)) = property_set P p k (Some [])"
  by (cases bs) (simp_all add: property_set_buffer_def property_set_buffer_ow_def property_set_def size_double_def
      SIZE_BITS_def kvdb_consts)

end
