(* ===== verification/File_Backend.thy ===== *)
theory File_Backend
  imports Keyspace
begin

text \<open>
  The file backend, \<open>kvdb/file.c\<close>: one file per key in a directory per database. The file
  system is a state with the regular files, the directories and a script of system call results,
  so that short transfers and failing calls are inputs of the model; with the script used up
  every call transfers all it is asked for.
\<close>

section \<open>The file system\<close>

record fs =
  files :: "(string \<times> string) list"
  dirs :: "string list"
  io :: "sysres list"

definition parent_dir :: "string \<Rightarrow> string" where
  "parent_dir p = rev (tl (dropWhile (\<lambda>c. c \<noteq> CHR ''/'') (rev p)))"

text \<open>\<open>open\<close> for writing with \<open>O_CREAT | O_TRUNC\<close>, \<open>open\<close> for reading, and \<open>unlink\<close>.\<close>

definition fs_open_trunc :: "fs \<Rightarrow> string \<Rightarrow> (int + unit) \<times> fs" where
  "fs_open_trunc s p =
     (let (r, rs) = sys_next (io s); s = s\<lparr>io := rs\<rparr>
      in case r of Fail e \<Rightarrow> (Inl e, s)
         | _ \<Rightarrow> if p \<in> set (dirs s) then (Inl EISDIR, s)
                else if map_of (files s) p = None \<and> parent_dir p \<notin> set (dirs s) then (Inl ENOENT, s)
                else (Inr (), s\<lparr>files := AList.update p [] (files s)\<rparr>))"

definition fs_open_read :: "fs \<Rightarrow> string \<Rightarrow> (int + string) \<times> fs" where
  "fs_open_read s p =
     (let (r, rs) = sys_next (io s); s = s\<lparr>io := rs\<rparr>
      in case r of Fail e \<Rightarrow> (Inl e, s)
         | _ \<Rightarrow> if p \<in> set (dirs s) then (Inl EISDIR, s)
                else (case map_of (files s) p of None \<Rightarrow> (Inl ENOENT, s) | Some c \<Rightarrow> (Inr c, s)))"

definition fs_unlink :: "fs \<Rightarrow> string \<Rightarrow> int \<times> fs" where
  "fs_unlink s p =
     (let (r, rs) = sys_next (io s); s = s\<lparr>io := rs\<rparr>
      in case r of Fail e \<Rightarrow> (- 1, s)
         | _ \<Rightarrow> if p \<in> set (dirs s) \<or> map_of (files s) p = None then (- 1, s)
                else (0, s\<lparr>files := AList.delete p (files s)\<rparr>))"

section \<open>The operations on one directory\<close>

definition kvdb_file_genpath :: "string \<Rightarrow> cmem \<Rightarrow> string" where
  "kvdb_file_genpath path key = snprintf PATH_MAX (path @ ''/'' @ cstr key)"

text \<open>
  The write loop: \<open>content\<close> is what the file holds, \<open>n\<close> is \<open>nbyteswrite\<close>. Every round writes from
  the start of \<open>value\<close>. A failing \<open>write\<close> returns -1, which the code compares with \<open>-EINTR\<close>.
\<close>

function file_write_loop ::
  "sysres list \<Rightarrow> string \<Rightarrow> cmem \<Rightarrow> nat \<Rightarrow> nat \<Rightarrow> int \<times> string \<times> sysres list" where
  "file_write_loop rs content value val_len n =
     (if n < val_len then
        (case sys_next rs of
           (Full, rs') \<Rightarrow>
             file_write_loop rs' (content @ take val_len value) value val_len (n + val_len)
         | (Short m, rs') \<Rightarrow>
             file_write_loop rs' (content @ take (min m val_len) value) value val_len (n + min m val_len)
         | (Fail e, rs') \<Rightarrow>
             if - 1 = - EINTR then file_write_loop rs' content value val_len n
             else (- e, content, rs'))
      else (0, content, rs))"
  by pat_completeness auto
termination
  by (relation "measure (\<lambda>(rs, content, value, val_len, n). length rs + (val_len - n))")
     (auto simp: sys_next_def errno_defs split: list.splits)

declare file_write_loop.simps [simp del]

definition kvdb_file_set :: "fs \<Rightarrow> string \<Rightarrow> cmem \<Rightarrow> cmem \<Rightarrow> nat \<Rightarrow> int \<times> fs" where
  "kvdb_file_set s path key value val_len =
     (if PROP_VALUE_MAX \<le> val_len then (- E2BIG, s)
      else (let filepath = kvdb_file_genpath path key
            in case fs_open_trunc s filepath of
                 (Inl e, s) \<Rightarrow> (- e, s)
               | (Inr _, s) \<Rightarrow>
                   (case file_write_loop (io s) [] value val_len 0 of
                      (r, content, rs) \<Rightarrow>
                        (r, s\<lparr>files := AList.update filepath content (files s), io := rs\<rparr>))))"

text \<open>The read loop: \<open>rest\<close> is what follows the file position, \<open>acc\<close> what the buffer holds.\<close>

function file_read_loop :: "sysres list \<Rightarrow> string \<Rightarrow> string \<Rightarrow> nat \<Rightarrow> int \<times> string \<times> sysres list" where
  "file_read_loop rs acc rest val_len =
     (let want = val_len - length acc in
      case sys_next rs of
        (Fail e, rs') \<Rightarrow>
          if - 1 = - EINTR then (int (length acc), acc, rs') else (- e, acc, rs')
      | (r, rs') \<Rightarrow>
          (let d = take (case r of Short m \<Rightarrow> min m want | _ \<Rightarrow> want) rest
           in if 0 < length d \<and> length acc + length d < val_len
              then file_read_loop rs' (acc @ d) (drop (length d) rest) val_len
              else (int (length (acc @ d)), acc @ d, rs')))"
  by pat_completeness auto
termination
  by (relation "measure (\<lambda>(rs, acc, rest, val_len). length rest)") auto

declare file_read_loop.simps [simp del]

definition kvdb_file_get :: "fs \<Rightarrow> string \<Rightarrow> cmem \<Rightarrow> nat \<Rightarrow> (int \<times> string) \<times> fs" where
  "kvdb_file_get s path key val_len =
     (let filepath = kvdb_file_genpath path key
      in case fs_open_read s filepath of
           (Inl e, s) \<Rightarrow> ((- e, []), s)
         | (Inr content, s) \<Rightarrow>
             (case file_read_loop (io s) [] content val_len of
                (r, d, rs) \<Rightarrow> ((r, d), s\<lparr>io := rs\<rparr>)))"

text \<open>The names of the regular files of a directory, in the order of the directory.\<close>

definition dir_entries :: "fs \<Rightarrow> string \<Rightarrow> string list" where
  "dir_entries s path =
     map (\<lambda>p. drop (length path + 1) p)
       (filter (\<lambda>p. prefix (path @ ''/'') p \<and> CHR ''/'' \<notin> set (drop (length path + 1) p))
         (map fst (files s)))"

fun file_list_loop :: "fs \<Rightarrow> string \<Rightarrow> string list \<Rightarrow> (int \<times> (string \<times> string) list) \<times> fs" where
  "file_list_loop s path [] = ((0, []), s)"
| "file_list_loop s path (d_name # es) =
     (case kvdb_file_get s path (mem_of d_name) PROP_VALUE_MAX of
        ((ret, value), s) \<Rightarrow>
          if ret < 0 then ((ret, []), s)
          else (case file_list_loop s path es of
                  ((r, calls), s) \<Rightarrow> ((r, (d_name, value) # calls), s)))"

definition kvdb_file_list :: "fs \<Rightarrow> string \<Rightarrow> (int \<times> (string \<times> string) list) \<times> fs" where
  "kvdb_file_list s path =
     (let (r, rs) = sys_next (io s); s = s\<lparr>io := rs\<rparr>
      in case r of Fail e \<Rightarrow> ((- e, []), s)
         | _ \<Rightarrow> if path \<notin> set (dirs s) then ((- ENOENT, []), s)
                else file_list_loop s path (dir_entries s path))"

definition kvdb_file_delete :: "fs \<Rightarrow> string \<Rightarrow> cmem \<Rightarrow> int \<times> fs" where
  "kvdb_file_delete s path key = fs_unlink s (kvdb_file_genpath path key)"

section \<open>The backend\<close>

definition file_kvdb_init :: "fs \<Rightarrow> int \<times> fs" where
  "file_kvdb_init s = (0, s)"

definition file_kvdb_uninit :: "fs \<Rightarrow> fs" where
  "file_kvdb_uninit s = s"

definition file_kvdb_set ::
  "config \<Rightarrow> fs \<Rightarrow> cmem option \<Rightarrow> nat \<Rightarrow> cmem option \<Rightarrow> nat \<Rightarrow> bool \<Rightarrow> int \<times> fs" where
  "file_kvdb_set cfg s key key_len value val_len force =
     (case (key, value) of
        (Some key, Some value) \<Rightarrow>
          (let ret = kvdb_get_index cfg key
           in if ret < 0 then (ret, s)
              else if CONFIG_KVDB_TEMPORARY_STORAGE cfg \<and> ret = KVDB_MEM
              then kvdb_file_set s (CONFIG_KVDB_TEMPORARY_PATH cfg) key value val_len
              else kvdb_file_set s (CONFIG_KVDB_PERSIST_PATH cfg) key value val_len)
      | _ \<Rightarrow> (- EINVAL, s))"

definition file_kvdb_get ::
  "config \<Rightarrow> fs \<Rightarrow> cmem option \<Rightarrow> nat \<Rightarrow> bool \<Rightarrow> nat \<Rightarrow> (int \<times> string) \<times> fs" where
  "file_kvdb_get cfg s key key_len value val_len =
     (case key of
        None \<Rightarrow> ((- EINVAL, []), s)
      | Some key \<Rightarrow>
          if \<not> value then ((- EINVAL, []), s)
          else (let ret = kvdb_get_index cfg key
                in if ret < 0 then ((ret, []), s)
                   else if CONFIG_KVDB_TEMPORARY_STORAGE cfg \<and> ret = KVDB_MEM
                   then kvdb_file_get s (CONFIG_KVDB_TEMPORARY_PATH cfg) key val_len
                   else kvdb_file_get s (CONFIG_KVDB_PERSIST_PATH cfg) key val_len))"

definition file_kvdb_delete :: "config \<Rightarrow> fs \<Rightarrow> cmem option \<Rightarrow> nat \<Rightarrow> int \<times> fs" where
  "file_kvdb_delete cfg s key key_len =
     (case key of
        None \<Rightarrow> (- EINVAL, s)
      | Some key \<Rightarrow>
          (let ret = kvdb_get_index cfg key
           in if ret < 0 then (ret, s)
              else if CONFIG_KVDB_TEMPORARY_STORAGE cfg \<and> ret = KVDB_MEM
              then kvdb_file_delete s (CONFIG_KVDB_TEMPORARY_PATH cfg) key
              else kvdb_file_delete s (CONFIG_KVDB_PERSIST_PATH cfg) key))"

definition file_kvdb_commit :: "fs \<Rightarrow> int \<times> fs" where
  "file_kvdb_commit s = (0, s)"

text \<open>The values are handed out in the array \<open>value\<close> of \<open>kvdb_file_list\<close>.\<close>

definition file_list_room :: "string \<Rightarrow> string \<Rightarrow> nat" where
  "file_list_room key val = PROP_VALUE_MAX"

definition file_kvdb_list :: "config \<Rightarrow> fs \<Rightarrow> bool \<Rightarrow> (int \<times> (string \<times> string) list) \<times> fs" where
  "file_kvdb_list cfg s consume =
     (if \<not> consume then ((- EINVAL, []), s)
      else (case kvdb_file_list s (CONFIG_KVDB_PERSIST_PATH cfg) of
              ((ret, calls), s) \<Rightarrow>
                if ret < 0 then ((ret, calls), s)
                else if CONFIG_KVDB_TEMPORARY_STORAGE cfg
                then (case kvdb_file_list s (CONFIG_KVDB_TEMPORARY_PATH cfg) of
                        ((ret, calls'), s) \<Rightarrow> ((ret, calls @ calls'), s))
                else ((ret, calls), s)))"

definition file_backend :: "config \<Rightarrow> fs backend" where
  "file_backend cfg =
     \<lparr>kvdb_init = file_kvdb_init, kvdb_uninit = file_kvdb_uninit, kvdb_set = file_kvdb_set cfg,
      kvdb_get = file_kvdb_get cfg, kvdb_delete = file_kvdb_delete cfg,
      kvdb_list = file_kvdb_list cfg, kvdb_commit = file_kvdb_commit\<rparr>"

section \<open>Quiet storage and the abstract view\<close>

text \<open>
  The keys the backend can name: legal C strings without a slash whose path fits into
  \<open>PATH_MAX\<close>, other than the names a directory always has.
\<close>

definition file_dir :: "config \<Rightarrow> string \<Rightarrow> string" where
  "file_dir cfg k = (if persistent k then CONFIG_KVDB_PERSIST_PATH cfg else CONFIG_KVDB_TEMPORARY_PATH cfg)"

definition file_good_key :: "config \<Rightarrow> string \<Rightarrow> bool" where
  "file_good_key cfg k \<longleftrightarrow> cstring k \<and> length k < PROP_NAME_MAX \<and> CHR ''/'' \<notin> set k
     \<and> k \<notin> {[], ''.'', ''..''} \<and> length (file_dir cfg k) + 1 + length k < PATH_MAX"

definition file_view :: "config \<Rightarrow> fs \<Rightarrow> string \<Rightarrow> string option" where
  "file_view cfg s k =
     (if file_good_key cfg k \<and> (persistent k \<or> CONFIG_KVDB_TEMPORARY_STORAGE cfg)
         \<and> file_dir cfg k @ ''/'' @ k \<notin> set (dirs s)
      then map_of (files s) (file_dir cfg k @ ''/'' @ k) else None)"

definition file_inv :: "config \<Rightarrow> fs \<Rightarrow> bool" where
  "file_inv cfg s \<longleftrightarrow> io s = [] \<and> (\<forall>k v. file_view cfg s k = Some v \<longrightarrow> length v < PROP_VALUE_MAX)"

lemma append_sep_inj:
  assumes "xs @ c # k = ys @ c # k'" "c \<notin> set k" "c \<notin> set k'"
  shows "xs = ys \<and> k = k'"
proof -
  have "takeWhile (\<lambda>x. x \<noteq> c) (rev (xs @ c # k)) = takeWhile (\<lambda>x. x \<noteq> c) (rev (ys @ c # k'))"
    using assms(1) by simp
  moreover have "takeWhile (\<lambda>x. x \<noteq> c) (rev k @ c # rev xs) = rev k"
    using assms(2) by (intro takeWhile_append_stop) auto
  moreover have "takeWhile (\<lambda>x. x \<noteq> c) (rev k' @ c # rev ys) = rev k'"
    using assms(3) by (intro takeWhile_append_stop) auto
  ultimately have "k = k'" by simp
  with assms(1) show ?thesis by simp
qed

lemma file_path_inj:
  "file_good_key cfg k \<Longrightarrow> file_good_key cfg k' \<Longrightarrow>
   (d @ ''/'' @ k = d' @ ''/'' @ k') \<longleftrightarrow> d = d' \<and> k = k'"
  using append_sep_inj [of d "CHR ''/''" k d' k'] by (auto simp: file_good_key_def)

lemma genpath_good [simp]:
  "file_good_key cfg k \<Longrightarrow> d = file_dir cfg k \<Longrightarrow> kvdb_file_genpath d (k @ NUL # m) = d @ ''/'' @ k"
  unfolding file_good_key_def kvdb_file_genpath_def snprintf_def
  by (subst take_all) auto

lemma file_write_loop_quiet: "file_write_loop [] content value n 0 = (0, content @ take n value, [])"
  by (subst file_write_loop.simps, subst file_write_loop.simps) simp

lemma file_read_loop_quiet:
  "file_read_loop [] acc rest n =
     (int (length (acc @ take (n - length acc) rest)), acc @ take (n - length acc) rest, [])"
proof -
  let ?d = "take (n - length acc) rest"
  have eof: "file_read_loop [] acc' [] n = (int (length acc'), acc', [])" for acc'
    by (simp add: file_read_loop.simps)
  show ?thesis
  proof (cases "0 < length ?d \<and> length acc + length ?d < n")
    case True
    then have "drop (length ?d) rest = []" by (auto simp: min_def split: if_splits)
    with True show ?thesis by (simp add: file_read_loop.simps [of "[]" acc rest n] eof)
  next
    case False
    then show ?thesis by (auto simp: file_read_loop.simps [of "[]" acc rest n] Let_def)
  qed
qed

lemma kvdb_file_set_quiet:
  assumes "io s = []" "file_good_key cfg k" "d = file_dir cfg k" "n < PROP_VALUE_MAX"
  shows "kvdb_file_set s d (k @ NUL # m) value n =
    (if d @ ''/'' @ k \<in> set (dirs s) then (- EISDIR, s)
     else if map_of (files s) (d @ ''/'' @ k) = None \<and> parent_dir (d @ ''/'' @ k) \<notin> set (dirs s)
     then (- ENOENT, s)
     else (0, s\<lparr>files := AList.update (d @ ''/'' @ k) (take n value) (files s)\<rparr>))"
  using assms file_write_loop_quiet [of "[]" "value" n]
  by (cases s) (simp add: kvdb_file_set_def fs_open_trunc_def Let_def del: append_Cons)

lemma kvdb_file_get_quiet:
  assumes "io s = []" "file_good_key cfg k" "d = file_dir cfg k"
  shows "kvdb_file_get s d (k @ NUL # m) n =
    (if d @ ''/'' @ k \<in> set (dirs s) then ((- EISDIR, []), s)
     else case map_of (files s) (d @ ''/'' @ k) of None \<Rightarrow> ((- ENOENT, []), s)
       | Some v \<Rightarrow> ((int (length (take n v)), take n v), s))"
  using assms
  by (simp add: kvdb_file_get_def fs_open_read_def file_read_loop_quiet Let_def
      split: option.splits del: append_Cons append_Nil)

lemma kvdb_file_delete_quiet:
  assumes "io s = []" "file_good_key cfg k" "d = file_dir cfg k"
  shows "kvdb_file_delete s d (k @ NUL # m) =
    (if d @ ''/'' @ k \<in> set (dirs s) \<or> map_of (files s) (d @ ''/'' @ k) = None then (- 1, s)
     else (0, s\<lparr>files := AList.delete (d @ ''/'' @ k) (files s)\<rparr>))"
  using assms
  by (simp add: kvdb_file_delete_def fs_unlink_def Let_def del: append_Cons append_Nil)

text \<open>The database a key selects, on the quiet storage: the operations work on \<open>file_dir\<close>.\<close>

lemma file_kvdb_set_dir:
  "cstring k \<Longrightarrow> file_kvdb_set cfg s (Some (k @ NUL # m)) kl (Some value) n f =
    (if persistent k \<or> CONFIG_KVDB_TEMPORARY_STORAGE cfg
     then kvdb_file_set s (file_dir cfg k) (k @ NUL # m) value n else (- EINVAL, s))"
  by (simp add: file_kvdb_set_def kvdb_get_index_cstr file_dir_def kvdb_consts errno_defs)

lemma file_kvdb_get_dir:
  "cstring k \<Longrightarrow> file_kvdb_get cfg s (Some (k @ NUL # m)) kl True n =
    (if persistent k \<or> CONFIG_KVDB_TEMPORARY_STORAGE cfg
     then kvdb_file_get s (file_dir cfg k) (k @ NUL # m) n else ((- EINVAL, []), s))"
  by (simp add: file_kvdb_get_def kvdb_get_index_cstr file_dir_def kvdb_consts errno_defs)

lemma file_kvdb_delete_dir:
  "cstring k \<Longrightarrow> file_kvdb_delete cfg s (Some (k @ NUL # m)) kl =
    (if persistent k \<or> CONFIG_KVDB_TEMPORARY_STORAGE cfg
     then kvdb_file_delete s (file_dir cfg k) (k @ NUL # m) else (- EINVAL, s))"
  by (simp add: file_kvdb_delete_def kvdb_get_index_cstr file_dir_def kvdb_consts errno_defs)

lemma file_view_update:
  assumes "file_good_key cfg k" "persistent k \<or> CONFIG_KVDB_TEMPORARY_STORAGE cfg"
    and "file_dir cfg k @ ''/'' @ k \<notin> set (dirs s)"
    and "map_of fl = (map_of (files s))(file_dir cfg k @ ''/'' @ k := x)"
  shows "file_view cfg (s\<lparr>files := fl\<rparr>) = (file_view cfg s)(k := x)"
proof
  fix k'
  show "file_view cfg (s\<lparr>files := fl\<rparr>) k' = ((file_view cfg s)(k := x)) k'"
    using assms file_path_inj [OF assms(1), of k' "file_dir cfg k" "file_dir cfg k'"]
    by (auto simp: file_view_def simp del: append_Cons append_Nil)
qed

lemma file_inv_update:
  "file_inv cfg s \<Longrightarrow> file_view cfg (s\<lparr>files := fl\<rparr>) = (file_view cfg s)(k := x) \<Longrightarrow>
   (\<And>v. x = Some v \<Longrightarrow> length v < PROP_VALUE_MAX) \<Longrightarrow> file_inv cfg (s\<lparr>files := fl\<rparr>)"
  by (auto simp: file_inv_def split: if_splits)

lemma file_set_law:
  assumes inv: "file_inv cfg s" and k: "file_good_key cfg k" and n: "n < PROP_VALUE_MAX"
    and eq: "file_kvdb_set cfg s (Some (k @ NUL # m)) kl (Some v) n f = (r, s')"
  shows "file_inv cfg s' \<and>
    file_view cfg s' = (if r < 0 then file_view cfg s else (file_view cfg s)(k \<mapsto> take n v))"
proof -
  let ?p = "file_dir cfg k @ ''/'' @ k"
  let ?fl = "AList.update ?p (take n v) (files s)"
  have k': "cstring k" and io: "io s = []"
    using k inv by (auto simp: file_good_key_def file_inv_def)
  note step = eq [unfolded file_kvdb_set_dir [OF k'] kvdb_file_set_quiet [OF io k refl n]]
  show ?thesis
  proof (cases "r < 0")
    case True
    with step inv show ?thesis by (auto split: if_splits)
  next
    case False
    with step have s': "s' = s\<lparr>files := ?fl\<rparr>"
      and c: "persistent k \<or> CONFIG_KVDB_TEMPORARY_STORAGE cfg" "?p \<notin> set (dirs s)"
      by (auto simp: errno_defs split: if_splits)
    have v: "file_view cfg s' = (file_view cfg s)(k \<mapsto> take n v)"
      unfolding s' by (rule file_view_update [OF k c]) (simp del: append_Cons append_Nil)
    with False n show ?thesis
      using file_inv_update [OF inv v [unfolded s']] by (simp add: s')
  qed
qed

lemma file_get_law:
  assumes inv: "file_inv cfg s" and k: "file_good_key cfg k"
    and eq: "file_kvdb_get cfg s (Some (k @ NUL # m)) kl True n = ((r, d), s')"
  shows "s' = s \<and> (case file_view cfg s k of None \<Rightarrow> r < 0
    | Some v \<Rightarrow> r = int (length (take n v)) \<and> d = take n v)"
proof -
  have k': "cstring k" and io: "io s = []"
    using k inv by (auto simp: file_good_key_def file_inv_def)
  from eq show ?thesis
    unfolding file_kvdb_get_dir [OF k'] kvdb_file_get_quiet [OF io k refl] file_view_def using k
    by (auto simp: errno_defs split: if_splits option.splits)
qed

lemma file_delete_law:
  assumes inv: "file_inv cfg s" and k: "file_good_key cfg k"
    and eq: "file_kvdb_delete cfg s (Some (k @ NUL # m)) kl = (r, s')"
  shows "file_inv cfg s' \<and>
    file_view cfg s' = (if r < 0 then file_view cfg s else (file_view cfg s)(k := None))"
proof -
  let ?p = "file_dir cfg k @ ''/'' @ k"
  have k': "cstring k" and io: "io s = []"
    using k inv by (auto simp: file_good_key_def file_inv_def)
  note step = eq [unfolded file_kvdb_delete_dir [OF k'] kvdb_file_delete_quiet [OF io k refl]]
  show ?thesis
  proof (cases "r < 0")
    case True
    with step inv show ?thesis by (auto split: if_splits)
  next
    case False
    with step have s': "s' = s\<lparr>files := AList.delete ?p (files s)\<rparr>"
      and c: "persistent k \<or> CONFIG_KVDB_TEMPORARY_STORAGE cfg" "?p \<notin> set (dirs s)"
      by (auto simp: errno_defs split: if_splits)
    have v: "file_view cfg s' = (file_view cfg s)(k := None)"
      unfolding s' by (rule file_view_update [OF k c]) (simp del: append_Cons append_Nil)
    with False show ?thesis
      using file_inv_update [OF inv v [unfolded s']] by (simp add: s')
  qed
qed

text \<open>
  When a set succeeds: the key has a database, its name is not that of a directory, and it has a file
  already or its directory exists.
\<close>

definition file_room :: "config \<Rightarrow> fs \<Rightarrow> string \<Rightarrow> bool" where
  "file_room cfg s k \<longleftrightarrow> (persistent k \<or> CONFIG_KVDB_TEMPORARY_STORAGE cfg) \<and>
     file_dir cfg k @ ''/'' @ k \<notin> set (dirs s) \<and>
     (file_view cfg s k \<noteq> None \<or> file_dir cfg k \<in> set (dirs s))"

lemma parent_dir_join:
  assumes "CHR ''/'' \<notin> set k"
  shows "parent_dir (d @ ''/'' @ k) = d"
proof -
  have "dropWhile (\<lambda>c. c \<noteq> CHR ''/'') (rev k @ CHR ''/'' # rev d) = CHR ''/'' # rev d"
    using assms by (subst dropWhile_append2) auto
  then show ?thesis by (simp add: parent_dir_def)
qed

lemma file_set_succeeds:
  assumes inv: "file_inv cfg s" and k: "file_good_key cfg k" and room: "file_room cfg s k" and n: "n < PROP_VALUE_MAX"
  shows "fst (file_kvdb_set cfg s (Some (k @ NUL # m)) kl (Some v) n f) = 0"
proof -
  have k': "cstring k" and sep: "CHR ''/'' \<notin> set k" and io: "io s = []"
    using k inv by (auto simp: file_good_key_def file_inv_def)
  show ?thesis
    using room unfolding file_kvdb_set_dir [OF k'] kvdb_file_set_quiet [OF io k refl n] file_room_def file_view_def
    by (auto simp: parent_dir_join [OF sep, simplified] split: if_splits)
qed

interpretation fb: kv_backend "file_backend cfg" "file_view cfg" "file_inv cfg" "file_inv cfg"
    "file_good_key cfg" for cfg
proof (unfold_locales, goal_cases)
  case (1 k)
  then show ?case by (simp add: file_good_key_def)
next
  case (2 w k v)
  then show ?case by (auto simp: file_inv_def)
next
  case (3 w r w')
  then show ?case by (simp add: file_backend_def file_kvdb_init_def)
next
  case (4 w)
  then show ?case by (simp add: file_backend_def file_kvdb_uninit_def)
next
  case (5 w k n v m f r w')
  then show ?case by (simp add: file_backend_def file_set_law)
next
  case (6 w k m n r d w')
  from 6(3) have "file_kvdb_get cfg w (Some (k @ NUL # m)) (Suc (length k)) True n = ((r, d), w')"
    by (simp add: file_backend_def)
  from file_get_law [OF 6(1,2) this] 6(1) show ?case by (auto split: option.splits)
next
  case (7 w k m r w')
  then show ?case by (simp add: file_backend_def file_delete_law)
next
  case (8 w r w')
  then show ?case by (simp add: file_backend_def file_kvdb_commit_def)
qed

interpretation fi: kv_steady "file_backend cfg" "file_view cfg" "file_inv cfg" "file_inv cfg"
    "file_good_key cfg" for cfg
  by unfold_locales (simp add: file_backend_def file_kvdb_init_def)

section \<open>Arbitrary requests\<close>

text \<open>
  On the quiet storage an operation changes at most one file, to a content of a legal length,
  whatever memory its key is.
\<close>

lemma file_inv_files:
  assumes "file_inv cfg s" "\<And>p. map_of fl p = map_of (files s) p \<or> map_of fl p = x"
    and "\<And>v. x = Some v \<Longrightarrow> length v < PROP_VALUE_MAX"
  shows "file_inv cfg (s\<lparr>files := fl\<rparr>)"
proof -
  have "length v < PROP_VALUE_MAX" if "file_view cfg (s\<lparr>files := fl\<rparr>) k = Some v" for k v
  proof (cases "file_view cfg s k = Some v")
    case True
    with assms(1) show ?thesis by (auto simp: file_inv_def)
  next
    case False
    let ?p = "file_dir cfg k @ ''/'' @ k"
    from that False have "map_of fl ?p = Some v" "map_of (files s) ?p \<noteq> Some v"
      by (auto simp: file_view_def split: if_splits)
    with assms(2,3) show ?thesis by metis
  qed
  with assms(1) show ?thesis by (simp add: file_inv_def)
qed

lemma kvdb_file_set_inv:
  assumes "file_inv cfg s"
  shows "file_inv cfg (snd (kvdb_file_set s d key v n)) \<and> is_int32 (fst (kvdb_file_set s d key v n)) \<and>
    (fst (kvdb_file_set s d key v n) < 0 \<longrightarrow> snd (kvdb_file_set s d key v n) = s)"
proof -
  let ?p = "kvdb_file_genpath d key"
  have io: "io s = []" using assms by (simp add: file_inv_def)
  have "file_inv cfg (s\<lparr>files := AList.update ?p (take n v) (files s)\<rparr>)" if "n < PROP_VALUE_MAX"
    by (rule file_inv_files [OF assms, where x = "Some (take n v)"]) (use that in auto)
  moreover have "snd (kvdb_file_set s d key v n) = s \<and> is_int32 (fst (kvdb_file_set s d key v n)) \<or> n < PROP_VALUE_MAX \<and>
      kvdb_file_set s d key v n = (0, s\<lparr>files := AList.update ?p (take n v) (files s)\<rparr>)"
    using io file_write_loop_quiet [of "[]" v n]
    by (cases s) (simp add: kvdb_file_set_def fs_open_trunc_def Let_def)
  ultimately show ?thesis using assms by auto
qed

lemma kvdb_file_delete_inv:
  assumes "file_inv cfg s"
  shows "file_inv cfg (snd (kvdb_file_delete s d key)) \<and> is_int32 (fst (kvdb_file_delete s d key)) \<and>
    (fst (kvdb_file_delete s d key) < 0 \<longrightarrow> snd (kvdb_file_delete s d key) = s)"
proof -
  let ?p = "kvdb_file_genpath d key"
  have io: "io s = []" using assms by (simp add: file_inv_def)
  have "file_inv cfg (s\<lparr>files := AList.delete ?p (files s)\<rparr>)"
    by (rule file_inv_files [OF assms, where x = None]) auto
  moreover have "snd (kvdb_file_delete s d key) = s \<and> is_int32 (fst (kvdb_file_delete s d key)) \<or>
      kvdb_file_delete s d key = (0, s\<lparr>files := AList.delete ?p (files s)\<rparr>)"
    using io by (cases s) (simp add: kvdb_file_delete_def fs_unlink_def Let_def)
  ultimately show ?thesis using assms by auto
qed

lemma kvdb_file_get_any:
  assumes "io s = []" "kvdb_file_get s d key n = ((r, b), s')"
  shows "s' = s \<and> (0 < r \<longrightarrow> r = int (length b) \<and> length b \<le> n)"
  using assms file_read_loop_quiet [of "[]" _ n]
  by (cases s)
     (auto simp: kvdb_file_get_def fs_open_read_def Let_def errno_defs split: if_splits option.splits)

lemma file_list_loop_quiet:
  assumes "io s = []" "file_list_loop s d es = ((r, calls), s')"
  shows "s' = s \<and> (0 \<le> r \<longrightarrow> (\<forall>e \<in> set es. (e, snd (fst (kvdb_file_get s d (mem_of e) PROP_VALUE_MAX))) \<in> set calls))"
  using assms(2)
proof (induction es arbitrary: r calls s')
  case (Cons e es)
  obtain q b s1 where g: "kvdb_file_get s d (mem_of e) PROP_VALUE_MAX = ((q, b), s1)" by (metis prod.exhaust)
  with kvdb_file_get_any [OF assms(1) g] have s1: "s1 = s" by simp
  obtain q' cs s2 where l: "file_list_loop s d es = ((q', cs), s2)" by (metis prod.exhaust)
  from Cons.IH [OF l] Cons.prems g s1 l show ?case by (auto split: if_splits)
qed auto

lemma kvdb_file_list_quiet:
  assumes inv: "file_inv cfg s" and "kvdb_file_list s d = ((r, calls), s')"
  shows "s' = s \<and> (0 \<le> r \<longrightarrow>
    (\<forall>k v. file_dir cfg k = d \<longrightarrow> file_view cfg s k = Some v \<longrightarrow> (k, v) \<in> set calls))"
proof -
  have io: "io s = []" using inv by (simp add: file_inv_def)
  then have s: "s\<lparr>io := []\<rparr> = s" by simp
  have unf: "kvdb_file_list s d =
      (if d \<notin> set (dirs s) then ((- ENOENT, []), s) else file_list_loop s d (dir_entries s d))"
    by (simp add: kvdb_file_list_def io s del: fs.fold_congs)
  have "(k, v) \<in> set calls"
    if r: "0 \<le> r" and k: "file_dir cfg k = d" "file_view cfg s k = Some v" for k v
  proof -
    let ?p = "d @ ''/'' @ k"
    from assms(2) r have l: "file_list_loop s d (dir_entries s d) = ((r, calls), s')"
      by (auto simp: unf errno_defs split: if_splits)
    from k have good: "file_good_key cfg k" and m: "map_of (files s) ?p = Some v" "?p \<notin> set (dirs s)"
      by (auto simp: file_view_def split: if_splits)
    have "?p \<in> fst ` set (files s)" using map_of_SomeD [OF m(1)] by force
    then have "k \<in> set (dir_entries s d)"
      using good by (force simp: dir_entries_def file_good_key_def)
    moreover have "kvdb_file_get s d (mem_of k) PROP_VALUE_MAX = ((int (length v), v), s)"
      using kvdb_file_get_quiet [OF io good, of d "[]" PROP_VALUE_MAX] m k(1)
        fb.view_bound [OF inv k(2)] by (simp add: mem_of_def)
    ultimately show ?thesis using file_list_loop_quiet [OF io l] r by fastforce
  qed
  moreover have "s' = s"
  proof (cases "d \<in> set (dirs s)")
    case True
    with assms(2) have "file_list_loop s d (dir_entries s d) = ((r, calls), s')"
      by (simp add: unf)
    then show ?thesis using file_list_loop_quiet [OF io] by blast
  qed (use assms(2) in \<open>simp add: unf\<close>)
  ultimately show ?thesis by blast
qed

lemma file_list_law:
  assumes inv: "file_inv cfg s" and eq: "file_kvdb_list cfg s True = ((r, calls), s')"
  shows "s' = s \<and> (0 \<le> r \<longrightarrow> (\<forall>k v. file_view cfg s k = Some v \<longrightarrow> (k, v) \<in> set calls))"
proof -
  obtain r1 c1 s1 where l1: "kvdb_file_list s (CONFIG_KVDB_PERSIST_PATH cfg) = ((r1, c1), s1)"
    by (metis prod.exhaust)
  note p = kvdb_file_list_quiet [OF inv l1]
  obtain r2 c2 s2 where l2: "kvdb_file_list s (CONFIG_KVDB_TEMPORARY_PATH cfg) = ((r2, c2), s2)"
    by (metis prod.exhaust)
  note t = kvdb_file_list_quiet [OF inv l2]
  have dirs: "file_dir cfg k = CONFIG_KVDB_PERSIST_PATH cfg \<or>
      CONFIG_KVDB_TEMPORARY_STORAGE cfg \<and> file_dir cfg k = CONFIG_KVDB_TEMPORARY_PATH cfg"
    if "file_view cfg s k = Some v" for k v
    using that by (auto simp: file_view_def file_dir_def split: if_splits)
  from eq p l1 l2 t have "s' = s" by (auto simp: file_kvdb_list_def split: if_splits)
  moreover have "(k, v) \<in> set calls" if "0 \<le> r" "file_view cfg s k = Some v" for k v
    using eq l1 l2 p t that dirs [OF that(2)] by (auto simp: file_kvdb_list_def split: if_splits)
  ultimately show ?thesis by blast
qed

interpretation fs: kv_service "file_backend cfg" "file_view cfg" "file_inv cfg" "file_inv cfg"
    "file_good_key cfg" for cfg
proof (unfold_locales, goal_cases)
  case (1 w key kl v n f r w')
  with kvdb_file_set_inv [OF 1(1), of "CONFIG_KVDB_TEMPORARY_PATH cfg" key v n]
    kvdb_file_set_inv [OF 1(1), of "CONFIG_KVDB_PERSIST_PATH cfg" key v n]
  show ?case
    by (auto simp: file_backend_def file_kvdb_set_def Let_def split: if_splits)
next
  case (2 w key kl hb n r d w')
  then have "io w = []" by (simp add: file_inv_def)
  with 2 show ?case
    using kvdb_file_get_any
    by (fastforce simp: file_backend_def file_kvdb_get_def Let_def split: if_splits)
next
  case (3 w key kl r w')
  with kvdb_file_delete_inv [OF 3(1), of "CONFIG_KVDB_TEMPORARY_PATH cfg" key]
    kvdb_file_delete_inv [OF 3(1), of "CONFIG_KVDB_PERSIST_PATH cfg" key]
  show ?case
    by (auto simp: file_backend_def file_kvdb_delete_def Let_def split: if_splits)
next
  case (4 w r calls w')
  then have "file_kvdb_list cfg w True = ((r, calls), w')" by (simp add: file_backend_def)
  from file_list_law [OF 4(1) this] 4(1) show ?case by auto
next
  case (5 n w key kl v f r w')
  then show ?case
    by (auto simp: file_backend_def file_kvdb_set_def kvdb_file_set_def Let_def errno_defs split: if_splits)
next
  case (6 w)
  show ?case by (simp add: file_backend_def file_kvdb_commit_def)
qed

end
