(* ===== verification/Unqlite_Backend.thy ===== *)
theory Unqlite_Backend
  imports Keyspace
begin

text \<open>
  The UnQLite backend, \<open>kvdb/unqlite.c\<close>. The database engine is not part of the repository: it
  is a parameter, a record of the functions the backend calls, and what the backend relies on is
  the predicate \<open>unqlite_ok\<close>.
\<close>

section \<open>The engine\<close>

text \<open>
  The state \<open>'u\<close> is one database. Keys and values are byte strings. \<open>unqlite_open\<close> takes the path,
  \<open>None\<close> for an in-memory database. \<open>unqlite_kv_fetch\<close> takes the size of the buffer, \<open>None\<close> for a
  null buffer, and returns its code, the bytes it stored and the length it reports.
  \<open>unqlite_cursor\<close> is the run of a cursor from its first entry: the code of the key callback,
  the key and the data of each entry.
\<close>

record 'u unqlite =
  unqlite_open :: "string option \<Rightarrow> 'u \<Rightarrow> int \<times> 'u"
  unqlite_close :: "'u \<Rightarrow> 'u"
  unqlite_kv_fetch :: "'u \<Rightarrow> string \<Rightarrow> nat option \<Rightarrow> int \<times> string \<times> int"
  unqlite_kv_store :: "'u \<Rightarrow> string \<Rightarrow> string \<Rightarrow> int \<times> 'u"
  unqlite_kv_delete :: "'u \<Rightarrow> string \<Rightarrow> int \<times> 'u"
  unqlite_commit :: "'u \<Rightarrow> int \<times> 'u"
  unqlite_cursor :: "'u \<Rightarrow> (int \<times> string \<times> string) list"

text \<open>
  The documented behaviour the backend relies on, over the records \<open>recs\<close> of a database: a store
  or delete that succeeds changes its own record and one that fails changes none; a fetch finds
  a record exactly when there is one, copies it up to the size of the buffer and reports the
  number of bytes (the size of the record when the buffer is null); opening the database file,
  committing and closing keep the records; a cursor visits every record; the codes are C ints.
\<close>

definition fetch_result :: "string option \<Rightarrow> nat option \<Rightarrow> int \<times> string \<times> int \<Rightarrow> bool" where
  "fetch_result record b res =
     (case (res, record) of
        ((r, d, n), None) \<Rightarrow> r < 0
      | ((r, d, n), Some v) \<Rightarrow> 0 \<le> r \<and>
          (case b of None \<Rightarrow> n = int (length v)
           | Some sz \<Rightarrow> d = take sz v \<and> n = int (length (take sz v))))"

definition unqlite_ok :: "'u unqlite \<Rightarrow> ('u \<Rightarrow> string \<Rightarrow> string option) \<Rightarrow> bool" where
  "unqlite_ok U recs \<longleftrightarrow>
     (\<forall>u k v. recs (snd (unqlite_kv_store U u k v)) =
        (if fst (unqlite_kv_store U u k v) < 0 then recs u else (recs u)(k \<mapsto> v))) \<and>
     (\<forall>u k. recs (snd (unqlite_kv_delete U u k)) =
        (if fst (unqlite_kv_delete U u k) < 0 then recs u else (recs u)(k := None))) \<and>
     (\<forall>u k b. fetch_result (recs u k) b (unqlite_kv_fetch U u k b)) \<and>
     (\<forall>p u. recs (snd (unqlite_open U (Some p) u)) = recs u) \<and>
     (\<forall>u. recs (unqlite_close U u) = recs u) \<and>
     (\<forall>u. recs (snd (unqlite_commit U u)) = recs u) \<and>
     (\<forall>u k v. recs u k = Some v \<longrightarrow> (\<exists>r. (r, k, v) \<in> set (unqlite_cursor U u))) \<and>
     (\<forall>u k v. is_int32 (fst (unqlite_kv_store U u k v)) \<and> is_int32 (fst (unqlite_kv_delete U u k)) \<and>
        is_int32 (fst (unqlite_commit U u)))"

section \<open>The backend\<close>

text \<open>
  The databases behind the paths of the configuration, which of them \<open>struct kvdb\<close> holds a handle
  to, and whether the allocation of \<open>struct kvdb\<close> fails.
\<close>

record 'u unq =
  db :: "'u list"
  handle :: "bool list"
  oom :: bool

definition kvdb_is_readonly :: "cmem \<Rightarrow> bool" where
  "kvdb_is_readonly key \<longleftrightarrow> strncmp_eq key (mem_of ''ro.'') 3"

definition unqlite_kv_is_exist :: "'u unqlite \<Rightarrow> 'u \<Rightarrow> cmem \<Rightarrow> nat \<Rightarrow> bool" where
  "unqlite_kv_is_exist U u key key_len \<longleftrightarrow> 0 \<le> fst (unqlite_kv_fetch U u (take key_len key) None)"

text \<open>
  \<open>key_len\<close> is decremented as an unsigned number first, so a length of zero fails the limit.
  \<open>kvdb_get\<close> and \<open>kvdb_delete\<close> read through the key pointer without a test.
\<close>

definition unq_kvdb_set ::
  "config \<Rightarrow> 'u unqlite \<Rightarrow> 'u unq \<Rightarrow> cmem option \<Rightarrow> nat \<Rightarrow> cmem option \<Rightarrow> nat \<Rightarrow> bool \<Rightarrow> int \<times> 'u unq" where
  "unq_kvdb_set cfg U w key key_len val val_len force =
     (let kl = size_dec key_len in
      if PROP_NAME_MAX \<le> kl then (- E2BIG, w)
      else case key of None \<Rightarrow> (- EINVAL, w)
      | Some key \<Rightarrow>
          if key ! kl \<noteq> NUL then (- EINVAL, w)
          else if PROP_VALUE_MAX \<le> val_len then (- E2BIG, w)
          else (let i = kvdb_get_index cfg key in
                if i < 0 then (i, w)
                else if \<not> force \<and> kvdb_is_readonly key \<and>
                  unqlite_kv_is_exist U (db w ! nat i) key (kl + 1) then (- EPERM, w)
                else (case unqlite_kv_store U (db w ! nat i) (take (kl + 1) key)
                            (case val of None \<Rightarrow> [] | Some v \<Rightarrow> take val_len v) of
                        (r, u) \<Rightarrow> (r, w\<lparr>db := (db w)[nat i := u]\<rparr>))))"

definition unq_kvdb_get ::
  "config \<Rightarrow> 'u unqlite \<Rightarrow> 'u unq \<Rightarrow> cmem option \<Rightarrow> nat \<Rightarrow> bool \<Rightarrow> nat \<Rightarrow> (int \<times> string) \<times> 'u unq" where
  "unq_kvdb_get cfg U w key key_len val val_len =
     (let kl = size_dec key_len in
      if PROP_NAME_MAX \<le> kl then ((- E2BIG, []), w)
      else case key of None \<Rightarrow> undefined
      | Some key \<Rightarrow>
          if key ! kl \<noteq> NUL then ((- EINVAL, []), w)
          else (let i = kvdb_get_index cfg key in
                if i < 0 then ((i, []), w)
                else (case unqlite_kv_fetch U (db w ! nat i) (take (kl + 1) key)
                            (if val then Some val_len else None) of
                        (ret, d, val_size) \<Rightarrow>
                          if ret < 0 then ((ret, d), w)
                          else if val_size \<le> 0 then ((- EINVAL, d), w)
                          else ((val_size, d), w))))"

definition unq_kvdb_delete ::
  "config \<Rightarrow> 'u unqlite \<Rightarrow> 'u unq \<Rightarrow> cmem option \<Rightarrow> nat \<Rightarrow> int \<times> 'u unq" where
  "unq_kvdb_delete cfg U w key key_len =
     (let kl = size_dec key_len in
      if PROP_NAME_MAX \<le> kl then (- E2BIG, w)
      else case key of None \<Rightarrow> undefined
      | Some key \<Rightarrow>
          if key ! kl \<noteq> NUL then (- EINVAL, w)
          else if kvdb_is_readonly key then (- EPERM, w)
          else (let i = kvdb_get_index cfg key in
                if i < 0 then (i, w)
                else (case unqlite_kv_delete U (db w ! nat i) (take (kl + 1) key) of
                        (r, u) \<Rightarrow> (r, w\<lparr>db := (db w)[nat i := u]\<rparr>))))"

text \<open>
  The cursor loop of one database calls back for each entry until a key callback fails;
  \<open>kvdb_list_value\<close> itself always returns 0. The key is handed on as a pointer to its bytes.
\<close>

fun unq_list_db :: "(int \<times> string \<times> string) list \<Rightarrow> int \<times> (string \<times> string) list" where
  "unq_list_db [] = (0, [])"
| "unq_list_db ((ret, key, val) # es) =
     (if ret < 0 then (ret, [])
      else case unq_list_db es of (r, calls) \<Rightarrow> (r, (cstr key, val) # calls))"

fun unq_list_loop :: "'u unqlite \<Rightarrow> 'u list \<Rightarrow> int \<times> (string \<times> string) list" where
  "unq_list_loop U [] = (0, [])"
| "unq_list_loop U (u # us) =
     (case unq_list_db (unqlite_cursor U u) of
        (ret, calls) \<Rightarrow>
          if ret < 0 then (ret, calls)
          else (case unq_list_loop U us of (r, calls') \<Rightarrow> (r, calls @ calls')))"

definition unq_kvdb_list ::
  "config \<Rightarrow> 'u unqlite \<Rightarrow> 'u unq \<Rightarrow> bool \<Rightarrow> (int \<times> (string \<times> string) list) \<times> 'u unq" where
  "unq_kvdb_list cfg U w consume = (unq_list_loop U (take (KVDB_COUNT cfg) (db w)), w)"

text \<open>
  \<open>kvdb_list_value\<close> hands on the pointer the engine passed, behind which the engine promises the bytes
  of the value and no more.
\<close>

definition unq_list_room :: "string \<Rightarrow> string \<Rightarrow> nat" where
  "unq_list_room key val = length val"

text \<open>Every database is committed; the first error is the result.\<close>

fun unq_commit_loop :: "'u unqlite \<Rightarrow> int \<Rightarrow> 'u list \<Rightarrow> int \<times> 'u list" where
  "unq_commit_loop U ret [] = (ret, [])"
| "unq_commit_loop U ret (u # us) =
     (case unqlite_commit U u of
        (r, u') \<Rightarrow>
          (case unq_commit_loop U (if r < 0 \<and> ret = 0 then r else ret) us of
             (ret', us') \<Rightarrow> (ret', u' # us')))"

definition unq_kvdb_commit :: "'u unqlite \<Rightarrow> 'u unq \<Rightarrow> int \<times> 'u unq" where
  "unq_kvdb_commit U w = (case unq_commit_loop U 0 (db w) of (ret, us) \<Rightarrow> (ret, w\<lparr>db := us\<rparr>))"

definition unq_kvdb_uninit :: "'u unqlite \<Rightarrow> 'u unq \<Rightarrow> 'u unq" where
  "unq_kvdb_uninit U w =
     w\<lparr>db := map2 (\<lambda>u h. if h then unqlite_close U u else u) (db w) (handle w),
       handle := map (\<lambda>_. False) (handle w)\<rparr>"

text \<open>
  \<open>kvdb_init\<close> opens the databases in turn; the first that fails closes those that are open. An
  empty path means an in-memory database when temporary storage is configured and nothing at all
  (the result of the step before stands) when it is not.
\<close>

definition unq_path :: "config \<Rightarrow> nat \<Rightarrow> string" where
  "unq_path cfg i = (if i = 0 then CONFIG_KVDB_PERSIST_PATH cfg else CONFIG_KVDB_TEMPORARY_PATH cfg)"

fun unq_init_loop :: "config \<Rightarrow> 'u unqlite \<Rightarrow> nat list \<Rightarrow> int \<Rightarrow> 'u unq \<Rightarrow> int \<times> 'u unq" where
  "unq_init_loop cfg U [] ret w = (ret, w)"
| "unq_init_loop cfg U (i # is) ret w =
     (let (ret, w) =
        (if unq_path cfg i \<noteq> [] then
           (case unqlite_open U (Some (unq_path cfg i)) (db w ! i) of
              (r, u) \<Rightarrow> (r, w\<lparr>db := (db w)[i := u], handle := (handle w)[i := 0 \<le> r]\<rparr>))
         else if CONFIG_KVDB_TEMPORARY_STORAGE cfg then
           (case unqlite_open U None (db w ! i) of
              (r, u) \<Rightarrow> (r, w\<lparr>db := (db w)[i := u], handle := (handle w)[i := 0 \<le> r]\<rparr>))
         else (ret, w))
      in if ret < 0 then (ret, unq_kvdb_uninit U w) else unq_init_loop cfg U is ret w)"

definition unq_kvdb_init :: "config \<Rightarrow> 'u unqlite \<Rightarrow> 'u unq \<Rightarrow> int \<times> 'u unq" where
  "unq_kvdb_init cfg U w =
     (if oom w then (- ENOMEM, w)
      else unq_init_loop cfg U [0..<KVDB_COUNT cfg] 0
             (w\<lparr>handle := replicate (KVDB_COUNT cfg) False\<rparr>))"

definition unq_backend :: "config \<Rightarrow> 'u unqlite \<Rightarrow> 'u unq backend" where
  "unq_backend cfg U =
     \<lparr>kvdb_init = unq_kvdb_init cfg U, kvdb_uninit = unq_kvdb_uninit U, kvdb_set = unq_kvdb_set cfg U,
      kvdb_get = unq_kvdb_get cfg U, kvdb_delete = unq_kvdb_delete cfg U,
      kvdb_list = unq_kvdb_list cfg U, kvdb_commit = unq_kvdb_commit U\<rparr>"

section \<open>The view and its laws\<close>

definition unq_good_key :: "string \<Rightarrow> bool" where
  "unq_good_key k \<longleftrightarrow> cstring k \<and> length k < PROP_NAME_MAX"

definition unq_index :: "config \<Rightarrow> string \<Rightarrow> int" where
  "unq_index cfg k = kvdb_get_index cfg (mem_of k)"

definition unq_view :: "config \<Rightarrow> ('u \<Rightarrow> string \<Rightarrow> string option) \<Rightarrow> 'u unq \<Rightarrow> string \<Rightarrow> string option" where
  "unq_view cfg recs w k =
     (if unq_good_key k \<and> 0 \<le> unq_index cfg k then recs (db w ! nat (unq_index cfg k)) (k @ [NUL])
      else None)"

definition unq_idle :: "config \<Rightarrow> ('u \<Rightarrow> string \<Rightarrow> string option) \<Rightarrow> 'u unq \<Rightarrow> bool" where
  "unq_idle cfg recs w \<longleftrightarrow> length (db w) = KVDB_COUNT cfg \<and> \<not> oom w \<and>
     (\<forall>k v. unq_view cfg recs w k = Some v \<longrightarrow> length v < PROP_VALUE_MAX)"

definition unq_opened :: "config \<Rightarrow> ('u \<Rightarrow> string \<Rightarrow> string option) \<Rightarrow> 'u unq \<Rightarrow> bool" where
  "unq_opened cfg recs w \<longleftrightarrow> unq_idle cfg recs w \<and> length (handle w) = KVDB_COUNT cfg"

definition unq_paths :: "config \<Rightarrow> bool" where
  "unq_paths cfg \<longleftrightarrow> (\<forall>i < KVDB_COUNT cfg. unq_path cfg i \<noteq> [])"

lemma unq_index_mem [simp]:
  "cstring k \<Longrightarrow> kvdb_get_index cfg (k @ NUL # m) = unq_index cfg k"
  by (simp add: unq_index_def kvdb_get_index_cstr)

lemma unq_index_range: "0 \<le> unq_index cfg k \<Longrightarrow> nat (unq_index cfg k) < KVDB_COUNT cfg"
  unfolding unq_index_def by (rule kvdb_get_index_range)

lemma unqlite_okD:
  assumes "unqlite_ok U recs"
  shows unqlite_store: "unqlite_kv_store U u k v = (r, u') \<Longrightarrow>
      recs u' = (if r < 0 then recs u else (recs u)(k \<mapsto> v))"
    and unqlite_delete: "unqlite_kv_delete U u k = (r, u') \<Longrightarrow>
      recs u' = (if r < 0 then recs u else (recs u)(k := None))"
    and unqlite_fetch_None: "recs u k = None \<Longrightarrow> fst (unqlite_kv_fetch U u k b) < 0"
    and unqlite_fetch_Some: "recs u k = Some x \<Longrightarrow> unqlite_kv_fetch U u k b = (r, d, n) \<Longrightarrow>
      0 \<le> r \<and> (case b of None \<Rightarrow> n = int (length x)
               | Some sz \<Rightarrow> d = take sz x \<and> n = int (length (take sz x)))"
    and unqlite_open_recs: "unqlite_open U (Some p) u = (r, u') \<Longrightarrow> recs u' = recs u"
    and unqlite_close_recs: "recs (unqlite_close U u) = recs u"
    and unqlite_commit_recs: "unqlite_commit U u = (r, u') \<Longrightarrow> recs u' = recs u"
    and unqlite_int: "is_int32 (fst (unqlite_kv_store U u k v))" "is_int32 (fst (unqlite_kv_delete U u k))"
      "is_int32 (fst (unqlite_commit U u))"
    and unqlite_cursor_all: "recs u k = Some x \<Longrightarrow> \<exists>r. (r, k, x) \<in> set (unqlite_cursor U u)"
proof -
  note ok = assms [unfolded unqlite_ok_def]
  show "unqlite_kv_store U u k v = (r, u') \<Longrightarrow> recs u' = (if r < 0 then recs u else (recs u)(k \<mapsto> v))"
    using ok by (metis fst_conv snd_conv)
  show "unqlite_kv_delete U u k = (r, u') \<Longrightarrow> recs u' = (if r < 0 then recs u else (recs u)(k := None))"
    using ok by (metis fst_conv snd_conv)
  have fetch: "fetch_result (recs u k) b (unqlite_kv_fetch U u k b)" for b
    using ok by blast
  show "recs u k = None \<Longrightarrow> fst (unqlite_kv_fetch U u k b) < 0"
    using fetch [of b] by (auto simp: fetch_result_def split: prod.splits)
  show "recs u k = Some x \<Longrightarrow> unqlite_kv_fetch U u k b = (r, d, n) \<Longrightarrow>
      0 \<le> r \<and> (case b of None \<Rightarrow> n = int (length x)
               | Some sz \<Rightarrow> d = take sz x \<and> n = int (length (take sz x)))"
    using fetch [of b] by (auto simp: fetch_result_def split: option.splits)
  show "unqlite_open U (Some p) u = (r, u') \<Longrightarrow> recs u' = recs u"
    using ok by (metis snd_conv)
  show "recs (unqlite_close U u) = recs u" using ok by blast
  show "unqlite_commit U u = (r, u') \<Longrightarrow> recs u' = recs u" using ok by (metis snd_conv)
  show "recs u k = Some x \<Longrightarrow> \<exists>r. (r, k, x) \<in> set (unqlite_cursor U u)" using ok by blast
  show "is_int32 (fst (unqlite_kv_store U u k v))" "is_int32 (fst (unqlite_kv_delete U u k))"
    "is_int32 (fst (unqlite_commit U u))" using ok by blast+
qed

lemma unq_exist_iff:
  assumes "unqlite_ok U recs"
  shows "unqlite_kv_is_exist U u key kl \<longleftrightarrow> recs u (take kl key) \<noteq> None"
proof (cases "recs u (take kl key)")
  case None
  with unqlite_fetch_None [OF assms None, of None] show ?thesis
    by (simp add: unqlite_kv_is_exist_def)
next
  case (Some x)
  obtain r d n where f: "unqlite_kv_fetch U u (take kl key) None = (r, d, n)"
    by (cases "unqlite_kv_fetch U u (take kl key) None")
  from unqlite_fetch_Some [OF assms Some f] f Some show ?thesis
    by (simp add: unqlite_kv_is_exist_def)
qed

text \<open>Storing into one database changes the view at the key of that record only.\<close>

lemma unq_view_store:
  assumes "length (db w) = KVDB_COUNT cfg" "unq_good_key k" "0 \<le> unq_index cfg k"
    and "recs u = (recs (db w ! nat (unq_index cfg k)))(k @ [NUL] := x)"
  shows "unq_view cfg recs (w\<lparr>db := (db w)[nat (unq_index cfg k) := u]\<rparr>) = (unq_view cfg recs w)(k := x)"
proof
  fix k'
  have "nat (unq_index cfg k) < length (db w)"
    using assms(1,3) unq_index_range by simp
  then show "unq_view cfg recs (w\<lparr>db := (db w)[nat (unq_index cfg k) := u]\<rparr>) k' =
      ((unq_view cfg recs w)(k := x)) k'"
    using assms(2-4) by (auto simp: unq_view_def nth_list_update)
qed

lemma unq_view_cong:
  assumes "map recs (db w') = map recs (db w)" "length (db w) = KVDB_COUNT cfg"
  shows "unq_view cfg recs w' = unq_view cfg recs w"
proof
  fix k
  have "recs (db w' ! i) = recs (db w ! i)" if "i < KVDB_COUNT cfg" for i
    using assms that by (metis length_map nth_map)
  then show "unq_view cfg recs w' k = unq_view cfg recs w k"
    by (simp add: unq_view_def unq_index_range)
qed

lemma unq_idle_cong:
  "map recs (db w') = map recs (db w) \<Longrightarrow> oom w' = oom w \<Longrightarrow> unq_idle cfg recs w \<Longrightarrow>
   unq_idle cfg recs w' \<and> unq_view cfg recs w' = unq_view cfg recs w"
  using unq_view_cong [of recs w' w cfg] map_eq_imp_length_eq [of recs "db w'" recs "db w"]
  by (auto simp: unq_idle_def)

lemma size_dec_key:
  assumes "unq_good_key k"
  shows "size_dec (Suc (length k)) = length k" "\<not> PROP_NAME_MAX \<le> length k" "cstring k"
proof -
  have "length k < 2 ^ SIZE_BITS"
    using assms by (simp add: unq_good_key_def SIZE_BITS_def kvdb_consts)
  then show "size_dec (Suc (length k)) = length k" by (rule size_dec_Suc)
qed (use assms in \<open>auto simp: unq_good_key_def\<close>)

lemma unq_set_law:
  assumes ok: "unqlite_ok U recs" and w: "unq_opened cfg recs w" and k: "unq_good_key k"
    and n: "n < PROP_VALUE_MAX"
    and eq: "unq_kvdb_set cfg U w (Some (k @ NUL # m)) (Suc (length k)) (Some v) n f = (r, w')"
  shows "unq_opened cfg recs w' \<and>
    unq_view cfg recs w' = (if r < 0 then unq_view cfg recs w else (unq_view cfg recs w)(k \<mapsto> take n v))"
proof -
  let ?i = "nat (unq_index cfg k)"
  obtain q u where st: "unqlite_kv_store U (db w ! ?i) (k @ [NUL]) (take n v) = (q, u)"
    by (cases "unqlite_kv_store U (db w ! ?i) (k @ [NUL]) (take n v)")
  from eq n st size_dec_key [OF k] consider
      "w' = w" "r < 0" | "0 \<le> unq_index cfg k" "r = q" "w' = w\<lparr>db := (db w)[?i := u]\<rparr>"
    by (auto simp: unq_kvdb_set_def Let_def nth_append errno_defs split: if_splits)
  then show ?thesis
  proof cases
    case 1
    with w show ?thesis by simp
  next
    case 2
    let ?x = "if q < 0 then recs (db w ! ?i) (k @ [NUL]) else Some (take n v)"
    have len: "length (db w) = KVDB_COUNT cfg" using w by (simp add: unq_opened_def unq_idle_def)
    have "recs u = (recs (db w ! ?i))(k @ [NUL] := ?x)"
      using unqlite_store [OF ok st] by auto
    from unq_view_store [OF len k 2(1) this] 2
    have v: "unq_view cfg recs w' = (unq_view cfg recs w)(k := ?x)" by simp
    with w n k 2 show ?thesis
      by (auto simp: unq_opened_def unq_idle_def unq_view_def split: if_splits)
  qed
qed

lemma unq_delete_law:
  assumes ok: "unqlite_ok U recs" and w: "unq_opened cfg recs w" and k: "unq_good_key k"
    and eq: "unq_kvdb_delete cfg U w (Some (k @ NUL # m)) (Suc (length k)) = (r, w')"
  shows "unq_opened cfg recs w' \<and>
    unq_view cfg recs w' = (if r < 0 then unq_view cfg recs w else (unq_view cfg recs w)(k := None))"
proof -
  let ?i = "nat (unq_index cfg k)"
  obtain q u where st: "unqlite_kv_delete U (db w ! ?i) (k @ [NUL]) = (q, u)"
    by (cases "unqlite_kv_delete U (db w ! ?i) (k @ [NUL])")
  from eq st size_dec_key [OF k] consider
      "w' = w" "r < 0" | "0 \<le> unq_index cfg k" "r = q" "w' = w\<lparr>db := (db w)[?i := u]\<rparr>"
    by (auto simp: unq_kvdb_delete_def Let_def nth_append errno_defs split: if_splits)
  then show ?thesis
  proof cases
    case 1
    with w show ?thesis by simp
  next
    case 2
    let ?x = "if q < 0 then recs (db w ! ?i) (k @ [NUL]) else None"
    have len: "length (db w) = KVDB_COUNT cfg" using w by (simp add: unq_opened_def unq_idle_def)
    have "recs u = (recs (db w ! ?i))(k @ [NUL] := ?x)"
      using unqlite_delete [OF ok st] by auto
    from unq_view_store [OF len k 2(1) this] 2
    have v: "unq_view cfg recs w' = (unq_view cfg recs w)(k := ?x)" by simp
    with w k 2 show ?thesis
      by (auto simp: unq_opened_def unq_idle_def unq_view_def split: if_splits)
  qed
qed

lemma unq_get_law:
  assumes ok: "unqlite_ok U recs" and k: "unq_good_key k"
    and eq: "unq_kvdb_get cfg U w (Some (k @ NUL # m)) (Suc (length k)) True n = ((r, d), w')"
  shows "w' = w \<and> (case unq_view cfg recs w k of None \<Rightarrow> r < 0
    | Some v \<Rightarrow> if take n v = [] then r \<le> 0 else r = int (length (take n v)) \<and> d = take n v)"
proof -
  let ?i = "nat (unq_index cfg k)"
  obtain q e z where f: "unqlite_kv_fetch U (db w ! ?i) (k @ [NUL]) (Some n) = (q, e, z)"
    by (cases "unqlite_kv_fetch U (db w ! ?i) (k @ [NUL]) (Some n)")
  note eq' = eq [unfolded unq_kvdb_get_def Let_def size_dec_key [OF k]]
  show ?thesis
  proof (cases "0 \<le> unq_index cfg k")
    case True
    have v: "unq_view cfg recs w k = recs (db w ! ?i) (k @ [NUL])"
      using True k by (simp add: unq_view_def)
    have eq2: "(if q < 0 then ((q, e), w) else if z \<le> 0 then ((- EINVAL, e), w) else ((z, e), w))
        = ((r, d), w')"
      using eq' True f size_dec_key [OF k] by (simp add: nth_append)
    show ?thesis
    proof (cases "recs (db w ! ?i) (k @ [NUL])")
      case None
      with unqlite_fetch_None [OF ok None, of "Some n"] f eq2 v show ?thesis by auto
    next
      case (Some x)
      from unqlite_fetch_Some [OF ok Some f]
      have "0 \<le> q" "e = take n x" "z = int (length (take n x))" by auto
      with eq2 v Some show ?thesis
        by (cases "take n x = []") (auto simp: errno_defs simp del: length_take take_eq_Nil)
    qed
  next
    case False
    with eq' size_dec_key [OF k] k show ?thesis
      by (auto simp: unq_view_def nth_append errno_defs split: if_splits)
  qed
qed

lemma unq_uninit_recs:
  assumes "unqlite_ok U recs" "length (handle w) = length (db w)"
  shows "map recs (db (unq_kvdb_uninit U w)) = map recs (db w)"
  using assms by (auto simp: unq_kvdb_uninit_def unqlite_close_recs intro: nth_equalityI)

lemma unq_commit_recs:
  assumes "unqlite_ok U recs"
  shows "unq_commit_loop U ret us = (r, us') \<Longrightarrow> map recs us' = map recs us"
  by (induction us arbitrary: ret r us')
     (auto simp: unqlite_commit_recs [OF assms] split: prod.splits)

lemma unq_init_loop_law:
  assumes ok: "unqlite_ok U recs" and paths: "\<forall>i \<in> set is. i < length (db w) \<and> unq_path cfg i \<noteq> []"
    and len: "length (handle w) = length (db w)"
    and eq: "unq_init_loop cfg U is ret w = (r, w')"
  shows "map recs (db w') = map recs (db w) \<and> length (handle w') = length (db w') \<and> oom w' = oom w"
  using paths len eq
proof (induction "is" arbitrary: ret w)
  case Nil
  then show ?case by simp
next
  case (Cons i "is")
  obtain q u where op: "unqlite_open U (Some (unq_path cfg i)) (db w ! i) = (q, u)"
    by (cases "unqlite_open U (Some (unq_path cfg i)) (db w ! i)")
  let ?w = "w\<lparr>db := (db w)[i := u], handle := (handle w)[i := 0 \<le> q]\<rparr>"
  have i: "i < length (db w)" using Cons.prems(1) by simp
  have recs: "map recs (db ?w) = map recs (db w)"
    using unqlite_open_recs [OF ok op] i by (simp add: map_update list_update_same_conv)
  have len: "length (handle ?w) = length (db ?w)" using Cons.prems(2) by simp
  show ?case
  proof (cases "q < 0")
    case True
    with Cons.prems(1,3) op have "w' = unq_kvdb_uninit U ?w" by simp
    with unq_uninit_recs [OF ok len] recs len show ?thesis by (simp add: unq_kvdb_uninit_def)
  next
    case False
    with Cons.prems(1,3) op have "unq_init_loop cfg U is q ?w = (r, w')" by simp
    with Cons.IH [of ?w] Cons.prems(1) len recs show ?thesis by simp
  qed
qed

lemma unq_init_law:
  assumes ok: "unqlite_ok U recs" and paths: "unq_paths cfg" and w: "unq_idle cfg recs w"
    and eq: "unq_kvdb_init cfg U w = (r, w')"
  shows "unq_view cfg recs w' = unq_view cfg recs w \<and>
    (if r < 0 then unq_idle cfg recs w' else unq_opened cfg recs w')"
proof (cases "oom w")
  case True
  with eq w show ?thesis by (auto simp: unq_kvdb_init_def errno_defs)
next
  case False
  let ?w = "w\<lparr>handle := replicate (KVDB_COUNT cfg) False\<rparr>"
  have len: "length (db w) = KVDB_COUNT cfg" using w by (simp add: unq_idle_def)
  have "\<forall>i \<in> set [0..<KVDB_COUNT cfg]. i < length (db ?w) \<and> unq_path cfg i \<noteq> []"
    using paths len by (simp add: unq_paths_def)
  from unq_init_loop_law [OF ok this, of 0 r w'] eq False len
  have r: "map recs (db w') = map recs (db w)" "oom w' = oom w" "length (handle w') = length (db w')"
    by (simp_all add: unq_kvdb_init_def)
  from unq_idle_cong [OF r(1,2) w] r(3) show ?thesis
    by (auto simp: unq_opened_def unq_idle_def)
qed

theorem unq_kv_backend:
  assumes ok: "unqlite_ok U recs" and paths: "unq_paths cfg"
  shows "kv_backend (unq_backend cfg U) (unq_view cfg recs) (unq_idle cfg recs)
    (unq_opened cfg recs) unq_good_key"
proof (unfold_locales, goal_cases)
  case (1 k)
  then show ?case by (simp add: unq_good_key_def)
next
  case (2 w k v)
  then show ?case by (auto simp: unq_opened_def unq_idle_def)
next
  case (3 w r w')
  then show ?case by (simp add: unq_backend_def unq_init_law [OF ok paths])
next
  case (4 w)
  then have "length (handle w) = length (db w)" "unq_idle cfg recs w"
    by (auto simp: unq_opened_def unq_idle_def)
  from unq_idle_cong [OF unq_uninit_recs [OF ok this(1)] _ this(2)] show ?case
    by (simp add: unq_backend_def unq_kvdb_uninit_def)
next
  case (5 w k n v m f r w')
  then show ?case by (simp add: unq_backend_def unq_set_law [OF ok])
next
  case (6 w k m n r d w')
  then have "unq_kvdb_get cfg U w (Some (k @ NUL # m)) (Suc (length k)) True n = ((r, d), w')"
    by (simp add: unq_backend_def)
  from unq_get_law [OF ok 6(2) this] 6(1) show ?case by (auto split: option.splits)
next
  case (7 w k m r w')
  then show ?case by (simp add: unq_backend_def unq_delete_law [OF ok])
next
  case (8 w r w')
  obtain q us where c: "unq_commit_loop U 0 (db w) = (q, us)" by (cases "unq_commit_loop U 0 (db w)")
  with 8(2) have w': "w' = w\<lparr>db := us\<rparr>" by (simp add: unq_backend_def unq_kvdb_commit_def)
  from 8(1) have "unq_idle cfg recs w" by (simp add: unq_opened_def)
  from unq_idle_cong [of recs w' w, OF _ _ this] unq_commit_recs [OF ok c] 8(1) w' show ?case
    by (simp add: unq_opened_def)
qed

text \<open>When every open of the engine succeeds, the backend can be opened.\<close>

definition unqlite_opens :: "'u unqlite \<Rightarrow> bool" where
  "unqlite_opens U \<longleftrightarrow> (\<forall>p u. 0 \<le> fst (unqlite_open U p u))"

lemma unq_init_loop_ok:
  "unqlite_opens U \<Longrightarrow> 0 \<le> ret \<Longrightarrow> 0 \<le> fst (unq_init_loop cfg U is ret w)"
proof (induction "is" arbitrary: ret w)
  case (Cons i "is")
  have o: "\<not> q < 0" if "unqlite_open U p u = (q, u')" for p u q u'
    using Cons.prems(1) that by (metis fst_conv not_less unqlite_opens_def)
  from Cons show ?case
    by (auto simp: not_less dest: o split: prod.splits if_splits)
qed simp

theorem unq_kv_steady:
  assumes "unqlite_ok U recs" "unq_paths cfg" "unqlite_opens U"
  shows "kv_steady (unq_backend cfg U) (unq_view cfg recs) (unq_idle cfg recs)
    (unq_opened cfg recs) unq_good_key"
proof (intro kv_steady.intro kv_steady_axioms.intro)
  show "0 \<le> fst (kvdb_init (unq_backend cfg U) w)" if "unq_idle cfg recs w" for w
    using that unq_init_loop_ok [OF assms(3)]
    by (simp add: unq_backend_def unq_kvdb_init_def unq_idle_def)
qed (rule unq_kv_backend [OF assms(1,2)])

section \<open>Read-only keys\<close>

lemma readonly_take:
  assumes "take (Suc j) key = k @ [NUL]" "cstring k" "prefix ''ro.'' k"
  shows "kvdb_is_readonly key"
proof -
  obtain m where "key = k @ NUL # m"
    using assms(1) append_take_drop_id [of "Suc j" key] by (metis append.assoc append_Cons append_Nil)
  then have "cstr key = k" using assms(2) by simp
  with strncmp_eq_prefix [of "''ro.''" key] assms(3) show ?thesis
    by (simp add: kvdb_is_readonly_def mem_of_def numeral_3_eq_3)
qed

text \<open>The state a set or a delete leaves.\<close>

lemma unq_set_state:
  "snd (unq_kvdb_set cfg U w (Some key) kl val n f) =
     (let i = kvdb_get_index cfg key; b = take (Suc (size_dec kl)) key in
      if size_dec kl < PROP_NAME_MAX \<and> key ! size_dec kl = NUL \<and> n < PROP_VALUE_MAX \<and> 0 \<le> i \<and>
        (f \<or> \<not> kvdb_is_readonly key \<or> \<not> unqlite_kv_is_exist U (db w ! nat i) key (Suc (size_dec kl)))
      then w\<lparr>db := (db w)[nat i := snd (unqlite_kv_store U (db w ! nat i) b
                               (case val of None \<Rightarrow> [] | Some v \<Rightarrow> take n v))]\<rparr>
      else w)"
  by (simp add: unq_kvdb_set_def Let_def split: prod.split)

lemma unq_delete_state:
  "snd (unq_kvdb_delete cfg U w (Some key) kl) =
     (let i = kvdb_get_index cfg key; b = take (Suc (size_dec kl)) key in
      if size_dec kl < PROP_NAME_MAX \<and> key ! size_dec kl = NUL \<and> \<not> kvdb_is_readonly key \<and> 0 \<le> i
      then w\<lparr>db := (db w)[nat i := snd (unqlite_kv_delete U (db w ! nat i) b)]\<rparr>
      else w)"
  by (simp add: unq_kvdb_delete_def Let_def split: prod.split)

text \<open>
  No unforced set and no delete touches the record of a read-only key that exists, whatever
  memory, lengths and value the call passes.
\<close>

lemma unq_readonly_set:
  assumes ok: "unqlite_ok U recs" and i: "i < length (db w)"
    and k: "cstring k" "prefix ''ro.'' k" "recs (db w ! i) (k @ [NUL]) = Some x"
    and eq: "unq_kvdb_set cfg U w (Some key) kl val n False = (r, w')"
  shows "recs (db w' ! i) (k @ [NUL]) = Some x"
proof -
  let ?i = "nat (kvdb_get_index cfg key)" and ?b = "take (Suc (size_dec kl)) key"
  let ?st = "unqlite_kv_store U (db w ! ?i) ?b (case val of None \<Rightarrow> [] | Some v \<Rightarrow> take n v)"
  have w': "w' = snd (unq_kvdb_set cfg U w (Some key) kl val n False)" by (simp add: eq)
  have "recs (snd ?st) (k @ [NUL]) = Some x"
    if "?i = i" "\<not> (kvdb_is_readonly key \<and> unqlite_kv_is_exist U (db w ! ?i) key (Suc (size_dec kl)))"
  proof -
    have "?b \<noteq> k @ [NUL]"
      using that k readonly_take unq_exist_iff [OF ok] by fastforce
    then show ?thesis using unqlite_store [OF ok, of "db w ! ?i" ?b _ "fst ?st" "snd ?st"] that k(3)
      by simp
  qed
  then show ?thesis
    using i k(3) unfolding w' unq_set_state Let_def by (cases "?i = i") auto
qed

lemma unq_readonly_delete:
  assumes ok: "unqlite_ok U recs" and i: "i < length (db w)"
    and k: "cstring k" "prefix ''ro.'' k" "recs (db w ! i) (k @ [NUL]) = Some x"
    and eq: "unq_kvdb_delete cfg U w (Some key) kl = (r, w')"
  shows "recs (db w' ! i) (k @ [NUL]) = Some x"
proof -
  let ?i = "nat (kvdb_get_index cfg key)" and ?b = "take (Suc (size_dec kl)) key"
  let ?st = "unqlite_kv_delete U (db w ! ?i) ?b"
  have w': "w' = snd (unq_kvdb_delete cfg U w (Some key) kl)" by (simp add: eq)
  have "recs (snd ?st) (k @ [NUL]) = Some x" if "?i = i" "\<not> kvdb_is_readonly key"
  proof -
    have "?b \<noteq> k @ [NUL]" using that k readonly_take by blast
    then show ?thesis using unqlite_delete [OF ok, of "db w ! ?i" ?b "fst ?st" "snd ?st"] that k(3)
      by simp
  qed
  then show ?thesis
    using i k(3) unfolding w' unq_delete_state Let_def by (cases "?i = i") auto
qed

section \<open>Arbitrary requests\<close>

text \<open>
  A record that changes in one database, to nothing or to a value of a legal length, keeps the
  databases well formed, whatever its key.
\<close>

lemma unq_opened_update:
  assumes "unq_opened cfg recs w" "\<And>b. recs u b = recs (db w ! i) b \<or> recs u b = x"
    and "\<And>v. x = Some v \<Longrightarrow> length v < PROP_VALUE_MAX"
  shows "unq_opened cfg recs (w\<lparr>db := (db w)[i := u]\<rparr>)"
proof -
  have "length v < PROP_VALUE_MAX" if v: "unq_view cfg recs (w\<lparr>db := (db w)[i := u]\<rparr>) k = Some v" for k v
  proof (cases "unq_view cfg recs w k = Some v")
    case True
    with assms(1) show ?thesis by (auto simp: unq_opened_def unq_idle_def)
  next
    case False
    have "(db w)[i := u] ! j = db w ! j \<or> (db w)[i := u] ! j = u \<and> i = j" for j
      by (cases "i < length (db w)") (auto simp: nth_list_update list_update_beyond)
    with v False have "recs u (k @ [NUL]) = Some v" "recs (db w ! i) (k @ [NUL]) \<noteq> Some v"
      by (auto simp: unq_view_def split: if_splits) metis+
    with assms(2,3) show ?thesis by metis
  qed
  with assms(1) show ?thesis by (auto simp: unq_opened_def unq_idle_def)
qed

lemma unq_recs_same:
  "recs u = (if r < 0 then recs (us ! i) else x) \<Longrightarrow> r < 0 \<Longrightarrow> map recs (us[i := u]) = map recs us"
  by (cases "i < length us") (simp_all add: map_update list_update_same_conv list_update_beyond)

lemma int32_fst: "is_int32 (fst p) \<Longrightarrow> p = (r, x) \<Longrightarrow> is_int32 r"
  by simp

lemma unq_set_opened:
  assumes ok: "unqlite_ok U recs" and w: "unq_opened cfg recs w"
    and eq: "unq_kvdb_set cfg U w (Some key) kl (Some v) n f = (r, w')"
  shows "unq_opened cfg recs w' \<and> is_int32 r \<and> (r < 0 \<longrightarrow> unq_view cfg recs w' = unq_view cfg recs w)"
proof -
  let ?i = "nat (kvdb_get_index cfg key)" and ?b = "take (Suc (size_dec kl)) key"
  let ?st = "unqlite_kv_store U (db w ! ?i) ?b (take n v)"
  have "unq_opened cfg recs (w\<lparr>db := (db w)[?i := snd ?st]\<rparr>)" if "n < PROP_VALUE_MAX"
    by (rule unq_opened_update [OF w, where x = "Some (take n v)"])
      (use unqlite_store [OF ok, of "db w ! ?i" ?b _ "fst ?st" "snd ?st"] that in auto)
  with w have "unq_opened cfg recs (snd (unq_kvdb_set cfg U w (Some key) kl (Some v) n f))"
    unfolding unq_set_state Let_def by simp
  moreover have "unq_view cfg recs w' = unq_view cfg recs w" if "r < 0"
  proof (rule unq_view_cong)
    show "map recs (db w') = map recs (db w)"
      using eq that by (auto simp: unq_kvdb_set_def Let_def unq_recs_same [OF unqlite_store [OF ok]]
          split: if_splits prod.splits)
  qed (use w in \<open>simp add: unq_opened_def unq_idle_def\<close>)
  moreover have "is_int32 r"
    using eq by (auto simp: unq_kvdb_set_def Let_def split: if_splits prod.splits
        dest: unqlite_int(1) [OF ok, THEN int32_fst])
  ultimately show ?thesis using eq by simp
qed

lemma unq_delete_opened:
  assumes ok: "unqlite_ok U recs" and w: "unq_opened cfg recs w"
    and eq: "unq_kvdb_delete cfg U w (Some key) kl = (r, w')"
  shows "unq_opened cfg recs w' \<and> is_int32 r \<and> (r < 0 \<longrightarrow> unq_view cfg recs w' = unq_view cfg recs w)"
proof -
  let ?i = "nat (kvdb_get_index cfg key)" and ?b = "take (Suc (size_dec kl)) key"
  let ?st = "unqlite_kv_delete U (db w ! ?i) ?b"
  have "unq_opened cfg recs (w\<lparr>db := (db w)[?i := snd ?st]\<rparr>)"
    by (rule unq_opened_update [OF w, where x = None])
      (use unqlite_delete [OF ok, of "db w ! ?i" ?b "fst ?st" "snd ?st"] in auto)
  with w have "unq_opened cfg recs (snd (unq_kvdb_delete cfg U w (Some key) kl))"
    unfolding unq_delete_state Let_def by simp
  moreover have "unq_view cfg recs w' = unq_view cfg recs w" if "r < 0"
  proof (rule unq_view_cong)
    show "map recs (db w') = map recs (db w)"
      using eq that by (auto simp: unq_kvdb_delete_def Let_def unq_recs_same [OF unqlite_delete [OF ok]]
          split: if_splits prod.splits)
  qed (use w in \<open>simp add: unq_opened_def unq_idle_def\<close>)
  moreover have "is_int32 r"
    using eq by (auto simp: unq_kvdb_delete_def Let_def split: if_splits prod.splits
        dest: unqlite_int(2) [OF ok, THEN int32_fst])
  ultimately show ?thesis using eq by simp
qed

lemma unq_get_opened:
  assumes ok: "unqlite_ok U recs"
    and eq: "unq_kvdb_get cfg U w (Some key) kl hb n = ((r, d), w')"
  shows "w' = w \<and> (hb \<and> 0 < r \<longrightarrow> r = int (length d) \<and> length d \<le> n)"
proof -
  let ?u = "db w ! nat (kvdb_get_index cfg key)" and ?b = "take (Suc (size_dec kl)) key"
  obtain ret d' sz where f: "unqlite_kv_fetch U ?u ?b (if hb then Some n else None) = (ret, d', sz)"
    by (metis prod.exhaust)
  have "ret < 0 \<or> \<not> hb \<or> d' = take n (the (recs ?u ?b)) \<and> sz = int (length d')"
  proof (cases "recs ?u ?b")
    case None
    from unqlite_fetch_None [OF ok None, of "if hb then Some n else None"] f show ?thesis by simp
  next
    case (Some x)
    from unqlite_fetch_Some [OF ok Some f] Some show ?thesis by auto
  qed
  with eq f show ?thesis
    by (auto simp: unq_kvdb_get_def Let_def kvdb_get_index_def kvdb_consts errno_defs split: if_splits)
qed

lemma unq_list_db_all:
  "unq_list_db es = (r, calls) \<Longrightarrow> 0 \<le> r \<Longrightarrow> (c, k, v) \<in> set es \<Longrightarrow> (cstr k, v) \<in> set calls"
  by (induction es arbitrary: calls rule: unq_list_db.induct) (auto split: if_splits prod.splits)

lemma unq_list_loop_all:
  assumes "unqlite_ok U recs" "unq_list_loop U us = (r, calls)" "0 \<le> r" "u \<in> set us" "recs u k = Some v"
  shows "(cstr k, v) \<in> set calls"
  using assms(2-4)
proof (induction us arbitrary: calls)
  case (Cons u' us)
  obtain q cs where l: "unq_list_db (unqlite_cursor U u') = (q, cs)" by (metis prod.exhaust)
  obtain q' cs' where l': "unq_list_loop U us = (q', cs')" by (metis prod.exhaust)
  from Cons.prems l l' have c: "calls = cs @ cs'" "0 \<le> q" "q' = r" by (auto split: if_splits)
  show ?case
  proof (cases "u' = u")
    case True
    with unqlite_cursor_all [OF assms(1,5)] unq_list_db_all [OF l c(2)] c show ?thesis by auto
  next
    case False
    with Cons.IH [of cs'] Cons.prems l' c show ?thesis by auto
  qed
qed simp

theorem unq_kv_service:
  assumes ok: "unqlite_ok U recs" and paths: "unq_paths cfg"
  shows "kv_service (unq_backend cfg U) (unq_view cfg recs) (unq_idle cfg recs)
    (unq_opened cfg recs) unq_good_key"
proof (intro kv_service.intro kv_service_axioms.intro, goal_cases)
  case 1
  show ?case by (rule unq_kv_backend [OF ok paths])
next
  case (2 w key kl v n f r w')
  then show ?case using unq_set_opened [OF ok] by (simp add: unq_backend_def)
next
  case (3 w key kl hb n r d w')
  then have "unq_kvdb_get cfg U w (Some key) kl hb n = ((r, d), w')" by (simp add: unq_backend_def)
  from unq_get_opened [OF ok this] 3(1) show ?case by auto
next
  case (4 w key kl r w')
  then show ?case using unq_delete_opened [OF ok] by (simp add: unq_backend_def)
next
  case (5 w r calls w')
  then have l: "unq_list_loop U (db w) = (r, calls)" and w': "w' = w"
    by (auto simp: unq_backend_def unq_kvdb_list_def unq_opened_def unq_idle_def)
  have "(k, v) \<in> set calls" if "0 \<le> r" "unq_view cfg recs w k = Some v" for k v
  proof -
    let ?u = "db w ! nat (unq_index cfg k)"
    from that(2) have k: "unq_good_key k" "0 \<le> unq_index cfg k" "recs ?u (k @ [NUL]) = Some v"
      by (auto simp: unq_view_def split: if_splits)
    have "?u \<in> set (db w)"
      using unq_index_range [OF k(2)] 5(1) by (simp add: unq_opened_def unq_idle_def)
    from unq_list_loop_all [OF ok l that(1) this k(3)] k(1) show ?thesis by (simp add: unq_good_key_def)
  qed
  with w' 5(1) show ?case by auto
next
  case (6 n w key kl v f r w')
  then show ?case by (auto simp: unq_backend_def unq_kvdb_set_def Let_def errno_defs split: if_splits)
next
  case (7 w)
  have "is_int32 ret \<Longrightarrow> is_int32 (fst (unq_commit_loop U ret us))" for ret us
  proof (induction us arbitrary: ret)
    case (Cons u us)
    with unqlite_int(3) [OF ok, of u] show ?case by (auto split: prod.splits if_splits) (metis fst_conv)+
  qed simp
  then show ?case
    by (auto simp: unq_backend_def unq_kvdb_commit_def int32_consts split: prod.splits) (metis fst_conv int32_consts(1))
qed

text \<open>The backend checks the terminator, and finds a stored record without a buffer.\<close>

lemma size_dec_checked:
  assumes "\<not> PROP_NAME_MAX \<le> size_dec kl" "kl < 2 ^ SIZE_BITS"
  shows "0 < kl \<and> size_dec kl = kl - 1"
proof (cases kl)
  case 0
  with assms(1) show ?thesis by (simp add: size_dec_0 kvdb_consts SIZE_BITS_def)
next
  case (Suc j)
  with assms(2) show ?thesis by (simp add: size_dec_Suc)
qed

lemma unq_set_checked:
  assumes "unq_kvdb_set cfg U w (Some key) kl (Some v) n f = (r, w')" "0 \<le> r" "kl < 2 ^ SIZE_BITS"
  shows "0 < kl \<and> key ! (kl - 1) = NUL"
  using assms size_dec_checked [of kl]
  by (auto simp: unq_kvdb_set_def Let_def errno_defs split: if_splits)

lemma unq_delete_checked:
  assumes "unq_kvdb_delete cfg U w (Some key) kl = (r, w')" "0 \<le> r" "kl < 2 ^ SIZE_BITS"
  shows "0 < kl \<and> key ! (kl - 1) = NUL"
  using assms size_dec_checked [of kl]
  by (auto simp: unq_kvdb_delete_def Let_def errno_defs split: if_splits)

lemma unq_get_exists:
  assumes ok: "unqlite_ok U recs" and k: "unq_good_key k" "unq_view cfg recs w k = Some v" "v \<noteq> []"
  shows "0 < fst (fst (unq_kvdb_get cfg U w (Some (k @ NUL # m)) (Suc (length k)) False n))"
proof -
  let ?u = "db w ! nat (unq_index cfg k)"
  from k(2) have r: "recs ?u (k @ [NUL]) = Some v" "0 \<le> unq_index cfg k"
    by (auto simp: unq_view_def split: if_splits)
  obtain ret d sz where f: "unqlite_kv_fetch U ?u (k @ [NUL]) None = (ret, d, sz)"
    by (metis prod.exhaust)
  from unqlite_fetch_Some [OF ok r(1) f] k(3) have "0 \<le> ret" "0 < sz" by auto
  with f r(2) size_dec_key [OF k(1)] show ?thesis
    by (simp add: unq_kvdb_get_def)
qed

text \<open>
  The engine and the configuration as a locale: whatever engine keeps its documented behaviour,
  the backend on it keeps the contracts of a backend.
\<close>

locale unqlite_engine =
  fixes cfg :: config and U :: "'u unqlite" and recs :: "'u \<Rightarrow> string \<Rightarrow> string option"
  assumes engine: "unqlite_ok U recs" and paths: "unq_paths cfg"

sublocale unqlite_engine \<subseteq> kv_checked "unq_backend cfg U" "unq_view cfg recs" "unq_idle cfg recs"
    "unq_opened cfg recs" unq_good_key
proof (intro kv_checked.intro kv_checked_axioms.intro unq_kv_service [OF engine paths], goal_cases)
  case (1 w key kl v n f r w')
  with unq_set_checked [of cfg U w key kl v n f r w'] show ?case by (simp add: unq_backend_def)
next
  case (2 w key kl r w')
  with unq_delete_checked [of cfg U w key kl r w'] show ?case by (simp add: unq_backend_def)
next
  case (3 k w m v n f)
  then have "size_dec (Suc (length k)) = length k" "PROP_NAME_MAX \<le> length k"
    by (auto simp: size_dec_Suc unq_good_key_def)
  then show ?case by (simp add: unq_backend_def unq_kvdb_set_def)
next
  case (4 w k v m n)
  then show ?case by (simp add: unq_backend_def unq_get_exists [OF engine])
qed

context unqlite_engine
begin

lemma checked:
  "kv_checked (unq_backend cfg U) (unq_view cfg recs) (unq_idle cfg recs) (unq_opened cfg recs) unq_good_key"
  by (rule kv_checked_axioms)

end

lemma unq_kv_checked:
  "unqlite_ok U recs \<Longrightarrow> unq_paths cfg \<Longrightarrow>
   kv_checked (unq_backend cfg U) (unq_view cfg recs) (unq_idle cfg recs) (unq_opened cfg recs) unq_good_key"
  by (intro unqlite_engine.checked unqlite_engine.intro)

locale unqlite_steady = unqlite_engine +
  assumes opens: "unqlite_opens U"

sublocale unqlite_steady \<subseteq> kv_steady "unq_backend cfg U" "unq_view cfg recs" "unq_idle cfg recs"
    "unq_opened cfg recs" unq_good_key
  by (rule unq_kv_steady [OF engine paths opens])

section \<open>A reference engine\<close>

text \<open>
  An engine on an association list, which shows that \<open>unqlite_ok\<close> can hold and which the concrete
  instances of the theorems run on.
\<close>

definition alist_engine :: "(string \<times> string) list unqlite" where
  "alist_engine =
     \<lparr>unqlite_open = \<lambda>p u. (0, case p of None \<Rightarrow> [] | Some _ \<Rightarrow> u), unqlite_close = \<lambda>u. u,
      unqlite_kv_fetch = \<lambda>u k b. case map_of u k of None \<Rightarrow> (- 6, [], 0)
        | Some v \<Rightarrow> (0, case b of None \<Rightarrow> ([], int (length v))
            | Some sz \<Rightarrow> (take sz v, int (length (take sz v)))),
      unqlite_kv_store = \<lambda>u k v. (0, AList.update k v u),
      unqlite_kv_delete = \<lambda>u k. if map_of u k = None then (- 6, u) else (0, AList.delete k u),
      unqlite_commit = \<lambda>u. (0, u), unqlite_cursor = \<lambda>u. map (\<lambda>(k, v). (0, k, v)) u\<rparr>"

lemma alist_engine_ok: "unqlite_ok alist_engine map_of"
  by (auto simp: unqlite_ok_def alist_engine_def fetch_result_def is_int32_def dest: map_of_SomeD
      split: option.splits)

lemma alist_engine_opens: "unqlite_opens alist_engine"
  by (simp add: unqlite_opens_def alist_engine_def)

text \<open>The defaults of \<open>Kconfig\<close> for this backend.\<close>

definition default_config :: config where
  "default_config =
     \<lparr>CONFIG_KVDB_TEMPORARY_STORAGE = True, CONFIG_KVDB_PERSIST_PATH = ''/data/persist.db'',
      CONFIG_KVDB_TEMPORARY_PATH = ''/tmp/temporary.db'', CONFIG_KVDB_SOURCE_PATH = ''/etc/build.prop'',
      CONFIG_KVDB_COMMIT_INTERVAL = 5, CONFIG_KVDB_DUMPLIST = True,
      CONFIG_NET_LOCAL = True, CONFIG_NET_RPMSG = False\<rparr>"

lemma default_config_paths: "unq_paths default_config"
  by (simp add: unq_paths_def unq_path_def default_config_def)

interpretation uq: unqlite_steady default_config alist_engine map_of
  by unfold_locales (rule alist_engine_ok, rule default_config_paths, rule alist_engine_opens)

end
