(* ===== verification/Nvs_Backend.thy ===== *)
theory Nvs_Backend
  imports Keyspace
begin

text \<open>
  The backend on non-volatile storage, \<open>kvdb/nvs.c\<close>: one configuration device per database. The device
  driver is not part of the repository: it is a parameter, a record of the control operations the
  backend calls, and what the backend relies on is the predicate \<open>cfgdev_ok\<close>.
\<close>

section \<open>The device\<close>

text \<open>
  The state \<open>'c\<close> is one device. \<open>cfg_set\<close>, \<open>cfg_del\<close> and \<open>cfg_get\<close> are the \<open>ioctl\<close> calls \<open>CFGDIOC_SETCONFIG\<close>,
  \<open>CFGDIOC_DELCONFIG\<close> and \<open>CFGDIOC_GETCONFIG\<close> with a result that is not negative or a negated error
  number; \<open>cfg_get\<close> takes whether the data pointer is not null and the length, and returns the
  bytes it stored and the length it sets. \<open>cfg_scan\<close> is the run of \<open>CFGDIOC_FIRSTCONFIG\<close> and
  \<open>CFGDIOC_NEXTCONFIG\<close> with a buffer of the given length, until the first call that fails.
\<close>

record 'c cfgdev =
  cfg_set :: "'c \<Rightarrow> string \<Rightarrow> string \<Rightarrow> int \<times> 'c"
  cfg_get :: "'c \<Rightarrow> string \<Rightarrow> bool \<Rightarrow> nat \<Rightarrow> int \<times> nat \<times> string"
  cfg_del :: "'c \<Rightarrow> string \<Rightarrow> int \<times> 'c"
  cfg_scan :: "'c \<Rightarrow> nat \<Rightarrow> (string \<times> string) list"

definition cfgdev_ok :: "'c cfgdev \<Rightarrow> ('c \<Rightarrow> string \<Rightarrow> string option) \<Rightarrow> bool" where
  "cfgdev_ok D recs \<longleftrightarrow>
     (\<forall>c k v. recs (snd (cfg_set D c k v)) = (if fst (cfg_set D c k v) < 0 then recs c else (recs c)(k \<mapsto> v))) \<and>
     (\<forall>c k. recs (snd (cfg_del D c k)) = (if fst (cfg_del D c k) < 0 then recs c else (recs c)(k := None))) \<and>
     (\<forall>c k n. case recs c k of None \<Rightarrow> fst (cfg_get D c k True n) < 0
        | Some v \<Rightarrow> 0 \<le> fst (cfg_get D c k True n) \<and> snd (cfg_get D c k True n) = (length (take n v), take n v)) \<and>
     (\<forall>c k v n. recs c k = Some v \<longrightarrow> (k, take n v) \<in> set (cfg_scan D c n))"

section \<open>The backend\<close>

text \<open>
  The devices behind the paths of the configuration, the descriptors of \<open>struct kvdb\<close>, the results of
  the coming \<open>open\<close> calls (a descriptor or a negated error number; the number of the device when used
  up), the descriptors that were closed, and whether the allocation of the handle fails.
\<close>

record 'c nvs =
  devs :: "'c list"
  nfd :: "int list"
  opens :: "int list"
  closed :: "int list"
  nvs_oom :: bool

definition nvs_open :: "'c nvs \<Rightarrow> nat \<Rightarrow> int \<times> 'c nvs" where
  "nvs_open w i = (case opens w of [] \<Rightarrow> (int i + 3, w) | r # rs \<Rightarrow> (r, w\<lparr>opens := rs\<rparr>))"

definition kvdb_skip_prefix :: "cmem \<Rightarrow> int \<Rightarrow> cmem" where
  "kvdb_skip_prefix key index = (if index = KVDB_PERSIST then drop PERSIST_LABEL_LEN key else key)"

definition kvdb_add_prefix :: "nat \<Rightarrow> int \<Rightarrow> string \<Rightarrow> string" where
  "kvdb_add_prefix outlen index s =
     (if index = KVDB_PERSIST then strlcat (strlcpy PERSIST_LABEL outlen) s outlen else strlcpy s outlen)"

text \<open>The label \<open>err\<close> of \<open>kvdb_init\<close>: a descriptor that is zero counts as not opened.\<close>

definition nvs_init_err :: "'c nvs \<Rightarrow> 'c nvs" where
  "nvs_init_err w = w\<lparr>closed := closed w @ filter (\<lambda>fd. fd \<noteq> 0) (nfd w)\<rparr>"

definition nvs_kvdb_init :: "config \<Rightarrow> 'c nvs \<Rightarrow> int \<times> 'c nvs" where
  "nvs_kvdb_init cfg w =
     (if nvs_oom w then (- ENOMEM, w)
      else case nvs_open (w\<lparr>nfd := replicate (KVDB_COUNT cfg) 0\<rparr>) 0 of
             (ret, w) \<Rightarrow>
               if ret < 0 then (ret, nvs_init_err w)
               else (let w = w\<lparr>nfd := (nfd w)[0 := ret]\<rparr>
                     in if CONFIG_KVDB_TEMPORARY_STORAGE cfg then
                          (case nvs_open w 1 of
                             (ret, w) \<Rightarrow>
                               if ret < 0 then (ret, nvs_init_err w) else (0, w\<lparr>nfd := (nfd w)[1 := ret]\<rparr>))
                        else (0, w)))"

definition nvs_kvdb_uninit :: "'c nvs \<Rightarrow> 'c nvs" where
  "nvs_kvdb_uninit w = w\<lparr>closed := closed w @ nfd w\<rparr>"

text \<open>
  \<open>name_max\<close> is \<open>sizeof(data.name)\<close>, the \<open>CONFIG_NAME_MAX\<close> of the driver. No operation tests the length of
  a value.
\<close>

definition nvs_kvdb_set ::
  "config \<Rightarrow> 'c cfgdev \<Rightarrow> nat \<Rightarrow> 'c nvs \<Rightarrow> cmem option \<Rightarrow> nat \<Rightarrow> cmem option \<Rightarrow> nat \<Rightarrow> bool \<Rightarrow> int \<times> 'c nvs" where
  "nvs_kvdb_set cfg D name_max w key key_len val val_len force =
     (case key of None \<Rightarrow> (- EINVAL, w)
      | Some key \<Rightarrow>
          if key_len = 0 then (- EINVAL, w)
          else (let index = kvdb_get_index cfg key in
                if index < 0 then (index, w)
                else (let key = kvdb_skip_prefix key index in
                      if name_max \<le> strlen key then (- EINVAL, w)
                      else (case cfg_set D (devs w ! nat index) (strlcpy (cstr key) name_max)
                                   (case val of None \<Rightarrow> [] | Some v \<Rightarrow> take val_len v) of
                              (ret, c) \<Rightarrow> (ret, w\<lparr>devs := (devs w)[nat index := c]\<rparr>)))))"

definition nvs_kvdb_get ::
  "config \<Rightarrow> 'c cfgdev \<Rightarrow> nat \<Rightarrow> 'c nvs \<Rightarrow> cmem option \<Rightarrow> nat \<Rightarrow> bool \<Rightarrow> nat \<Rightarrow> (int \<times> string) \<times> 'c nvs" where
  "nvs_kvdb_get cfg D name_max w key key_len val val_len =
     (case key of None \<Rightarrow> ((- EINVAL, []), w)
      | Some key \<Rightarrow>
          if key_len = 0 then ((- EINVAL, []), w)
          else (let index = kvdb_get_index cfg key in
                if index < 0 then ((index, []), w)
                else (let key = kvdb_skip_prefix key index in
                      if name_max \<le> strlen key then ((- EINVAL, []), w)
                      else (case cfg_get D (devs w ! nat index) (strlcpy (cstr key) name_max) val val_len of
                              (ret, len, d) \<Rightarrow> if ret < 0 then ((ret, d), w) else ((int len, d), w)))))"

definition nvs_kvdb_delete ::
  "config \<Rightarrow> 'c cfgdev \<Rightarrow> nat \<Rightarrow> 'c nvs \<Rightarrow> cmem option \<Rightarrow> nat \<Rightarrow> int \<times> 'c nvs" where
  "nvs_kvdb_delete cfg D name_max w key key_len =
     (case key of None \<Rightarrow> (- EINVAL, w)
      | Some key \<Rightarrow>
          if key_len = 0 then (- EINVAL, w)
          else (let index = kvdb_get_index cfg key in
                if index < 0 then (index, w)
                else (let key = kvdb_skip_prefix key index in
                      if name_max \<le> strlen key then (- EINVAL, w)
                      else (case cfg_del D (devs w ! nat index) (strlcpy (cstr key) name_max) of
                              (ret, c) \<Rightarrow> (ret, w\<lparr>devs := (devs w)[nat index := c]\<rparr>)))))"

text \<open>The list operation ends a device at its first failing call and always returns 0.\<close>

definition nvs_list_dev :: "'c cfgdev \<Rightarrow> nat \<Rightarrow> int \<Rightarrow> 'c \<Rightarrow> (string \<times> string) list" where
  "nvs_list_dev D name_max i c =
     map (\<lambda>(name, d). (kvdb_add_prefix (name_max + PERSIST_LABEL_LEN) i name, d)) (cfg_scan D c PROP_VALUE_MAX)"

text \<open>The values are handed out in the array \<open>buf\<close> of \<open>kvdb_list\<close>.\<close>

definition nvs_list_room :: "string \<Rightarrow> string \<Rightarrow> nat" where
  "nvs_list_room key val = PROP_VALUE_MAX"

definition nvs_kvdb_list ::
  "config \<Rightarrow> 'c cfgdev \<Rightarrow> nat \<Rightarrow> 'c nvs \<Rightarrow> bool \<Rightarrow> (int \<times> (string \<times> string) list) \<times> 'c nvs" where
  "nvs_kvdb_list cfg D name_max w consume =
     (if \<not> consume then ((0, []), w)
      else ((0, concat (map (\<lambda>i. nvs_list_dev D name_max (int i) (devs w ! i)) [0..<KVDB_COUNT cfg])), w))"

definition nvs_kvdb_commit :: "'c nvs \<Rightarrow> int \<times> 'c nvs" where
  "nvs_kvdb_commit w = (0, w)"

definition nvs_backend :: "config \<Rightarrow> 'c cfgdev \<Rightarrow> nat \<Rightarrow> 'c nvs backend" where
  "nvs_backend cfg D name_max =
     \<lparr>kvdb_init = nvs_kvdb_init cfg, kvdb_uninit = nvs_kvdb_uninit, kvdb_set = nvs_kvdb_set cfg D name_max,
      kvdb_get = nvs_kvdb_get cfg D name_max, kvdb_delete = nvs_kvdb_delete cfg D name_max,
      kvdb_list = nvs_kvdb_list cfg D name_max, kvdb_commit = nvs_kvdb_commit\<rparr>"

section \<open>The view and its laws\<close>

text \<open>The device and the name of a key.\<close>

definition nvs_name :: "string \<Rightarrow> string" where
  "nvs_name k = (if persistent k then drop PERSIST_LABEL_LEN k else k)"

definition nvs_index :: "string \<Rightarrow> nat" where
  "nvs_index k = (if persistent k then 0 else 1)"

definition nvs_good_key :: "nat \<Rightarrow> string \<Rightarrow> bool" where
  "nvs_good_key name_max k \<longleftrightarrow> cstring k \<and> length k < PROP_NAME_MAX \<and> length (nvs_name k) < name_max"

definition nvs_view ::
  "config \<Rightarrow> nat \<Rightarrow> ('c \<Rightarrow> string \<Rightarrow> string option) \<Rightarrow> 'c nvs \<Rightarrow> string \<Rightarrow> string option" where
  "nvs_view cfg name_max recs w k =
     (if nvs_good_key name_max k \<and> (persistent k \<or> CONFIG_KVDB_TEMPORARY_STORAGE cfg)
      then recs (devs w ! nvs_index k) (nvs_name k) else None)"

text \<open>\<open>steady\<close>: no allocation and no open fails.\<close>

definition nvs_idle ::
  "config \<Rightarrow> nat \<Rightarrow> ('c \<Rightarrow> string \<Rightarrow> string option) \<Rightarrow> bool \<Rightarrow> 'c nvs \<Rightarrow> bool" where
  "nvs_idle cfg name_max recs steady w \<longleftrightarrow> length (devs w) = KVDB_COUNT cfg \<and>
     (\<forall>k v. nvs_view cfg name_max recs w k = Some v \<longrightarrow> length v < PROP_VALUE_MAX) \<and>
     (steady \<longrightarrow> \<not> nvs_oom w \<and> (\<forall>r \<in> set (opens w). 0 \<le> r))"

lemma nvs_index_key:
  "kvdb_get_index cfg (k @ NUL # m) =
     (if persistent (cstr (k @ NUL # m)) \<or> CONFIG_KVDB_TEMPORARY_STORAGE cfg
      then int (nvs_index (cstr (k @ NUL # m))) else - EINVAL)"
  by (simp add: kvdb_get_index_cstr nvs_index_def kvdb_consts)

lemma nvs_skip_key:
  assumes "cstring k"
  shows "kvdb_skip_prefix (k @ NUL # m) (int (nvs_index k)) = nvs_name k @ NUL # m" "cstring (nvs_name k)"
proof -
  have "PERSIST_LABEL_LEN \<le> length k" if "persistent k"
    using that prefix_length_le [of PERSIST_LABEL k] by (simp add: persistent_def PERSIST_LABEL_def PERSIST_LABEL_LEN_def)
  then show "kvdb_skip_prefix (k @ NUL # m) (int (nvs_index k)) = nvs_name k @ NUL # m"
    by (simp add: kvdb_skip_prefix_def nvs_index_def nvs_name_def kvdb_consts)
  show "cstring (nvs_name k)"
    using assms by (auto simp: nvs_name_def cstring_def dest: in_set_dropD)
qed

text \<open>The prefix that listing puts back is the one that storing has skipped.\<close>

lemma add_skip_prefix:
  assumes "nvs_good_key name_max k"
  shows "kvdb_add_prefix (name_max + PERSIST_LABEL_LEN) (int (nvs_index k)) (nvs_name k) = k"
proof (cases "persistent k")
  case True
  then obtain x where "k = PERSIST_LABEL @ x" by (auto simp: persistent_def prefix_def)
  with assms True show ?thesis
    by (auto simp: kvdb_add_prefix_def nvs_index_def nvs_name_def nvs_good_key_def strlcat_def strlcpy_def
        PERSIST_LABEL_def PERSIST_LABEL_LEN_def kvdb_consts)
next
  case False
  with assms show ?thesis
    by (simp add: kvdb_add_prefix_def nvs_index_def nvs_name_def nvs_good_key_def strlcpy_def
        PERSIST_LABEL_LEN_def kvdb_consts)
qed

lemma nvs_key_inj: "nvs_index k = nvs_index k' \<Longrightarrow> nvs_name k = nvs_name k' \<Longrightarrow> k = k'"
  by (auto simp: nvs_index_def nvs_name_def persistent_def prefix_def PERSIST_LABEL_def PERSIST_LABEL_LEN_def
      split: if_splits)

lemma nvs_index_less:
  "persistent k \<or> CONFIG_KVDB_TEMPORARY_STORAGE cfg \<Longrightarrow> nvs_index k < KVDB_COUNT cfg"
  by (auto simp: nvs_index_def KVDB_COUNT_def)

lemma strlcpy_fits: "length s < n \<Longrightarrow> strlcpy s n = s"
  by (simp add: strlcpy_def)

text \<open>The operations on a good key.\<close>

lemma nvs_set_key:
  assumes "nvs_good_key nm k"
  shows "nvs_kvdb_set cfg D nm w (Some (k @ NUL # m)) (Suc n) (Some v) l f =
    (if persistent k \<or> CONFIG_KVDB_TEMPORARY_STORAGE cfg
     then (case cfg_set D (devs w ! nvs_index k) (nvs_name k) (take l v) of
             (ret, c) \<Rightarrow> (ret, w\<lparr>devs := (devs w)[nvs_index k := c]\<rparr>))
     else (- EINVAL, w))"
  using assms nvs_skip_key(1) [of k m] nvs_skip_key(2) [of k]
  by (simp add: nvs_kvdb_set_def nvs_good_key_def nvs_index_key Let_def errno_defs strlcpy_fits)

lemma nvs_get_key:
  assumes "nvs_good_key nm k"
  shows "nvs_kvdb_get cfg D nm w (Some (k @ NUL # m)) (Suc n) hb l =
    (if persistent k \<or> CONFIG_KVDB_TEMPORARY_STORAGE cfg
     then (case cfg_get D (devs w ! nvs_index k) (nvs_name k) hb l of
             (ret, len, d) \<Rightarrow> if ret < 0 then ((ret, d), w) else ((int len, d), w))
     else ((- EINVAL, []), w))"
  using assms nvs_skip_key(1) [of k m] nvs_skip_key(2) [of k]
  by (simp add: nvs_kvdb_get_def nvs_good_key_def nvs_index_key Let_def errno_defs strlcpy_fits)

lemma nvs_delete_key:
  assumes "nvs_good_key nm k"
  shows "nvs_kvdb_delete cfg D nm w (Some (k @ NUL # m)) (Suc n) =
    (if persistent k \<or> CONFIG_KVDB_TEMPORARY_STORAGE cfg
     then (case cfg_del D (devs w ! nvs_index k) (nvs_name k) of
             (ret, c) \<Rightarrow> (ret, w\<lparr>devs := (devs w)[nvs_index k := c]\<rparr>))
     else (- EINVAL, w))"
  using assms nvs_skip_key(1) [of k m] nvs_skip_key(2) [of k]
  by (simp add: nvs_kvdb_delete_def nvs_good_key_def nvs_index_key Let_def errno_defs strlcpy_fits)

text \<open>A record that changes under the name of one key changes the view at that key only.\<close>

lemma nvs_view_cong: "(\<And>j. recs (devs w' ! j) = recs (devs w ! j)) \<Longrightarrow> nvs_view cfg nm recs w' = nvs_view cfg nm recs w"
  by (rule ext) (simp only: nvs_view_def)

lemma nvs_view_update:
  assumes "length (devs w) = KVDB_COUNT cfg" "nvs_good_key nm k" "persistent k \<or> CONFIG_KVDB_TEMPORARY_STORAGE cfg"
    and "recs c = (recs (devs w ! nvs_index k))(nvs_name k := x)"
  shows "nvs_view cfg nm recs (w\<lparr>devs := (devs w)[nvs_index k := c]\<rparr>) = (nvs_view cfg nm recs w)(k := x)"
proof
  fix k'
  have i: "nvs_index k < length (devs w)" using assms(1) nvs_index_less [OF assms(3)] by simp
  show "nvs_view cfg nm recs (w\<lparr>devs := (devs w)[nvs_index k := c]\<rparr>) k' = ((nvs_view cfg nm recs w)(k := x)) k'"
  proof (cases "nvs_index k' = nvs_index k")
    case True
    with assms(2-4) i nvs_key_inj [OF True] show ?thesis by (auto simp: nvs_view_def)
  next
    case False
    then have "k' \<noteq> k" "devs (w\<lparr>devs := (devs w)[nvs_index k := c]\<rparr>) ! nvs_index k' = devs w ! nvs_index k'" by auto
    then show ?thesis by (simp only: nvs_view_def fun_upd_apply if_False)
  qed
qed

lemma nvs_view_same:
  assumes "length (devs w) = KVDB_COUNT cfg" "persistent k \<or> CONFIG_KVDB_TEMPORARY_STORAGE cfg"
    and "recs c = recs (devs w ! nvs_index k)"
  shows "nvs_view cfg nm recs (w\<lparr>devs := (devs w)[nvs_index k := c]\<rparr>) = nvs_view cfg nm recs w"
proof (rule nvs_view_cong)
  fix j
  show "recs (devs (w\<lparr>devs := (devs w)[nvs_index k := c]\<rparr>) ! j) = recs (devs w ! j)"
    using assms nvs_index_less [OF assms(2)] by (cases "j = nvs_index k") auto
qed

text \<open>A change of one record, of a legal length, or of none, by the result of the device.\<close>

lemma nvs_change_law:
  assumes w: "nvs_idle cfg nm recs st w" and k: "nvs_good_key nm k" "persistent k \<or> CONFIG_KVDB_TEMPORARY_STORAGE cfg"
    and c: "recs c = (if r < 0 then recs (devs w ! nvs_index k) else (recs (devs w ! nvs_index k))(nvs_name k := x))"
    and x: "\<And>v. x = Some v \<Longrightarrow> length v < PROP_VALUE_MAX"
    and w': "w' = w\<lparr>devs := (devs w)[nvs_index k := c]\<rparr>"
  shows "nvs_idle cfg nm recs st w' \<and>
    nvs_view cfg nm recs w' = (if r < (0 :: int) then nvs_view cfg nm recs w else (nvs_view cfg nm recs w)(k := x))"
proof -
  have len: "length (devs w) = KVDB_COUNT cfg" using w by (simp add: nvs_idle_def)
  have "nvs_view cfg nm recs w' = (if r < 0 then nvs_view cfg nm recs w else (nvs_view cfg nm recs w)(k := x))"
    using nvs_view_same [OF len k(2), of recs c nm] nvs_view_update [OF len k, of recs c x] c by (simp add: w')
  then show ?thesis using w x by (auto simp: nvs_idle_def w' split: if_splits)
qed

lemma nvs_set_law:
  assumes ok: "cfgdev_ok D recs" and w: "nvs_idle cfg nm recs st w" and k: "nvs_good_key nm k"
    and l: "l < PROP_VALUE_MAX"
    and eq: "nvs_kvdb_set cfg D nm w (Some (k @ NUL # m)) (Suc n) (Some v) l f = (r, w')"
  shows "nvs_idle cfg nm recs st w' \<and>
    nvs_view cfg nm recs w' = (if r < 0 then nvs_view cfg nm recs w else (nvs_view cfg nm recs w)(k \<mapsto> take l v))"
proof (cases "persistent k \<or> CONFIG_KVDB_TEMPORARY_STORAGE cfg")
  case True
  obtain q c where s: "cfg_set D (devs w ! nvs_index k) (nvs_name k) (take l v) = (q, c)"
    by (cases "cfg_set D (devs w ! nvs_index k) (nvs_name k) (take l v)")
  have c: "recs c = (if q < 0 then recs (devs w ! nvs_index k)
      else (recs (devs w ! nvs_index k))(nvs_name k := Some (take l v)))"
    using ok s unfolding cfgdev_ok_def by (metis fst_conv snd_conv)
  from eq s True have "r = q" "w' = w\<lparr>devs := (devs w)[nvs_index k := c]\<rparr>"
    by (simp_all add: nvs_set_key [OF k])
  with nvs_change_law [OF w k True c _ this(2)] l show ?thesis by simp
next
  case False
  with eq w show ?thesis by (auto simp: nvs_set_key [OF k] errno_defs)
qed

lemma nvs_delete_law:
  assumes ok: "cfgdev_ok D recs" and w: "nvs_idle cfg nm recs st w" and k: "nvs_good_key nm k"
    and eq: "nvs_kvdb_delete cfg D nm w (Some (k @ NUL # m)) (Suc n) = (r, w')"
  shows "nvs_idle cfg nm recs st w' \<and>
    nvs_view cfg nm recs w' = (if r < 0 then nvs_view cfg nm recs w else (nvs_view cfg nm recs w)(k := None))"
proof (cases "persistent k \<or> CONFIG_KVDB_TEMPORARY_STORAGE cfg")
  case True
  obtain q c where s: "cfg_del D (devs w ! nvs_index k) (nvs_name k) = (q, c)"
    by (cases "cfg_del D (devs w ! nvs_index k) (nvs_name k)")
  have c: "recs c = (if q < 0 then recs (devs w ! nvs_index k)
      else (recs (devs w ! nvs_index k))(nvs_name k := None))"
    using ok s unfolding cfgdev_ok_def by (metis fst_conv snd_conv)
  from eq s True have "r = q" "w' = w\<lparr>devs := (devs w)[nvs_index k := c]\<rparr>"
    by (simp_all add: nvs_delete_key [OF k])
  with nvs_change_law [OF w k True c _ this(2)] show ?thesis by simp
next
  case False
  with eq w show ?thesis by (auto simp: nvs_delete_key [OF k] errno_defs)
qed

lemma nvs_get_law:
  assumes ok: "cfgdev_ok D recs" and k: "nvs_good_key nm k"
    and eq: "nvs_kvdb_get cfg D nm w (Some (k @ NUL # m)) (Suc n) True l = ((r, d), w')"
  shows "w' = w \<and> (case nvs_view cfg nm recs w k of None \<Rightarrow> r < 0
    | Some v \<Rightarrow> r = int (length (take l v)) \<and> d = take l v)"
proof -
  obtain q len b where g: "cfg_get D (devs w ! nvs_index k) (nvs_name k) True l = (q, len, b)"
    by (cases "cfg_get D (devs w ! nvs_index k) (nvs_name k) True l")
  have "case recs (devs w ! nvs_index k) (nvs_name k) of None \<Rightarrow> q < 0
      | Some v \<Rightarrow> 0 \<le> q \<and> (len, b) = (length (take l v), take l v)"
    using ok [unfolded cfgdev_ok_def, THEN conjunct2, THEN conjunct2, THEN conjunct1, rule_format,
        of "devs w ! nvs_index k" "nvs_name k" l]
    by (simp only: g fst_conv snd_conv)
  with eq g k show ?thesis
    by (auto simp: nvs_get_key [OF k] nvs_view_def errno_defs split: if_splits option.splits)
qed

lemma nvs_init_state:
  assumes "nvs_kvdb_init cfg w = (r, w')"
  shows "devs w' = devs w \<and> nvs_oom w' = nvs_oom w \<and> set (opens w') \<subseteq> set (opens w) \<and>
    (\<not> nvs_oom w \<and> (\<forall>q \<in> set (opens w). 0 \<le> q) \<longrightarrow> 0 \<le> r)"
  using assms
  by (auto simp: nvs_kvdb_init_def nvs_open_def nvs_init_err_def Let_def errno_defs split: if_splits list.splits)

lemma nvs_idle_cong:
  assumes "nvs_idle cfg nm recs st w" "devs w' = devs w" "nvs_oom w' = nvs_oom w" "set (opens w') \<subseteq> set (opens w)"
  shows "nvs_idle cfg nm recs st w' \<and> nvs_view cfg nm recs w' = nvs_view cfg nm recs w"
proof -
  have "nvs_view cfg nm recs w' = nvs_view cfg nm recs w" by (rule nvs_view_cong) (simp add: assms(2))
  with assms show ?thesis by (auto simp: nvs_idle_def)
qed

theorem nvs_kv_backend:
  assumes ok: "cfgdev_ok D recs"
  shows "kv_backend (nvs_backend cfg D nm) (nvs_view cfg nm recs) (nvs_idle cfg nm recs st)
    (nvs_idle cfg nm recs st) (nvs_good_key nm)"
proof (unfold_locales, goal_cases)
  case (1 k)
  then show ?case by (simp add: nvs_good_key_def)
next
  case (2 w k v)
  then show ?case by (auto simp: nvs_idle_def)
next
  case (3 w r w')
  then have "nvs_kvdb_init cfg w = (r, w')" by (simp add: nvs_backend_def)
  from nvs_init_state [OF this] nvs_idle_cong [OF 3(1), of w'] show ?case by simp
next
  case (4 w)
  then show ?case
    using nvs_idle_cong [OF 4, of "nvs_kvdb_uninit w"] by (simp add: nvs_backend_def nvs_kvdb_uninit_def)
next
  case (5 w k n v m f r w')
  then show ?case by (simp add: nvs_backend_def nvs_set_law [OF ok])
next
  case (6 w k m n r d w')
  then have "nvs_kvdb_get cfg D nm w (Some (k @ NUL # m)) (Suc (length k)) True n = ((r, d), w')"
    by (simp add: nvs_backend_def)
  from nvs_get_law [OF ok 6(2) this] 6(1) show ?case by (auto split: option.splits)
next
  case (7 w k m r w')
  then show ?case by (simp add: nvs_backend_def nvs_delete_law [OF ok])
next
  case (8 w r w')
  then show ?case by (simp add: nvs_backend_def nvs_kvdb_commit_def)
qed

theorem nvs_kv_steady:
  assumes "cfgdev_ok D recs"
  shows "kv_steady (nvs_backend cfg D nm) (nvs_view cfg nm recs) (nvs_idle cfg nm recs True)
    (nvs_idle cfg nm recs True) (nvs_good_key nm)"
proof (intro kv_steady.intro kv_steady_axioms.intro)
  show "kv_backend (nvs_backend cfg D nm) (nvs_view cfg nm recs) (nvs_idle cfg nm recs True)
      (nvs_idle cfg nm recs True) (nvs_good_key nm)"
    by (rule nvs_kv_backend [OF assms])
next
  fix w
  assume "nvs_idle cfg nm recs True w"
  then have st: "\<not> nvs_oom w \<and> (\<forall>q \<in> set (opens w). 0 \<le> q)" by (simp add: nvs_idle_def)
  obtain r w' where i: "nvs_kvdb_init cfg w = (r, w')" by (cases "nvs_kvdb_init cfg w")
  with nvs_init_state [OF i] st show "0 \<le> fst (kvdb_init (nvs_backend cfg D nm) w)"
    by (simp add: nvs_backend_def)
qed

text \<open>Listing reports every key of the view under its own name.\<close>

lemma nvs_list_law:
  assumes ok: "cfgdev_ok D recs" and v: "nvs_view cfg nm recs w k = Some v" and n: "length v < PROP_VALUE_MAX"
  shows "(k, v) \<in> set (snd (fst (nvs_kvdb_list cfg D nm w True)))"
proof -
  let ?c = "devs w ! nvs_index k"
  from v have k: "nvs_good_key nm k" "persistent k \<or> CONFIG_KVDB_TEMPORARY_STORAGE cfg"
    and r: "recs ?c (nvs_name k) = Some v" by (auto simp: nvs_view_def split: if_splits)
  from ok r have "(nvs_name k, take PROP_VALUE_MAX v) \<in> set (cfg_scan D ?c PROP_VALUE_MAX)"
    unfolding cfgdev_ok_def by blast
  with n have "(nvs_name k, v) \<in> set (cfg_scan D ?c PROP_VALUE_MAX)" by simp
  then have "(k, v) \<in> set (nvs_list_dev D nm (int (nvs_index k)) ?c)"
    using add_skip_prefix [OF k(1)] by (force simp: nvs_list_dev_def)
  with nvs_index_less [OF k(2)] show ?thesis by (auto simp: nvs_kvdb_list_def)
qed

text \<open>No length is refused: what a set of any length stores.\<close>

lemma nvs_set_long:
  assumes ok: "cfgdev_ok D recs" and w: "nvs_idle cfg nm recs st w" and k: "nvs_good_key nm k"
    "persistent k \<or> CONFIG_KVDB_TEMPORARY_STORAGE cfg"
    and eq: "nvs_kvdb_set cfg D nm w (Some (k @ NUL # m)) (Suc n) (Some v) l f = (r, w')" "0 \<le> r"
  shows "nvs_view cfg nm recs w' k = Some (take l v) \<and> nvs_oom w' = nvs_oom w \<and> opens w' = opens w"
proof -
  obtain q c where s: "cfg_set D (devs w ! nvs_index k) (nvs_name k) (take l v) = (q, c)"
    by (cases "cfg_set D (devs w ! nvs_index k) (nvs_name k) (take l v)")
  from eq s k(2) have w': "r = q" "w' = w\<lparr>devs := (devs w)[nvs_index k := c]\<rparr>"
    by (simp_all add: nvs_set_key [OF k(1)])
  have "recs c = (recs (devs w ! nvs_index k))(nvs_name k \<mapsto> take l v)"
    using ok s eq(2) w'(1) unfolding cfgdev_ok_def by (metis fst_conv snd_conv linorder_not_less)
  moreover have "length (devs w) = KVDB_COUNT cfg" using w by (simp add: nvs_idle_def)
  ultimately show ?thesis using nvs_view_update [of w cfg nm k recs c] k by (simp add: w'(2))
qed

section \<open>The device as a locale, and a reference device\<close>

locale nvs_device =
  fixes cfg :: config and D :: "'c cfgdev" and name_max :: nat and recs :: "'c \<Rightarrow> string \<Rightarrow> string option"
  assumes device: "cfgdev_ok D recs"

sublocale nvs_device \<subseteq> kv_steady "nvs_backend cfg D name_max" "nvs_view cfg name_max recs"
    "nvs_idle cfg name_max recs True" "nvs_idle cfg name_max recs True" "nvs_good_key name_max"
  by (rule nvs_kv_steady [OF device])

definition alist_device :: "(string \<times> string) list cfgdev" where
  "alist_device =
     \<lparr>cfg_set = \<lambda>c k v. (0, AList.update k v c),
      cfg_get = \<lambda>c k hb n. case map_of c k of None \<Rightarrow> (- ENOENT, 0, [])
        | Some v \<Rightarrow> (0, length (take n v), if hb then take n v else []),
      cfg_del = \<lambda>c k. if map_of c k = None then (- ENOENT, c) else (0, AList.delete k c),
      cfg_scan = \<lambda>c n. map (\<lambda>(k, v). (k, take n v)) c\<rparr>"

lemma alist_device_ok: "cfgdev_ok alist_device map_of"
  unfolding cfgdev_ok_def
  by (auto simp: alist_device_def errno_defs fun_eq_iff split: option.splits dest!: map_of_SomeD)

interpretation nv: nvs_device cfg alist_device name_max map_of for cfg name_max
  by unfold_locales (rule alist_device_ok)

end
