(* ===== verification/Direct.thy ===== *)
theory Direct
  imports Common File_Backend Unqlite_Backend Nvs_Backend
begin

text \<open>
  The binary accessors of a process that works on the storage itself, \<open>kvdb/direct.c\<close>: every call
  opens the backend, runs one operation and closes it. Any backend that keeps its contract makes
  them a \<open>property_store\<close>.
\<close>

section \<open>The accessors\<close>

definition direct_set_binary ::
  "'w backend \<Rightarrow> 'w \<Rightarrow> string option \<Rightarrow> cmem \<Rightarrow> nat \<Rightarrow> bool \<Rightarrow> int \<times> 'w" where
  "direct_set_binary B w key val val_len oneway =
     (case key of None \<Rightarrow> (- EINVAL, w)
      | Some key \<Rightarrow>
          (let key_len = strlen (mem_of key) + 1 in
           if PROP_NAME_MAX < key_len then (- E2BIG, w)
           else if val_len = 0 \<or> PROP_VALUE_MAX \<le> val_len then (- E2BIG, w)
           else (case kvdb_init B w of
                   (ret, w) \<Rightarrow>
                     if ret < 0 then (ret, w)
                     else (case kvdb_set B w (Some (mem_of key)) key_len (Some val) val_len False of
                             (ret, w) \<Rightarrow> (ret, kvdb_uninit B w)))))"

definition direct_get_binary ::
  "'w backend \<Rightarrow> 'w \<Rightarrow> string option \<Rightarrow> bool \<Rightarrow> nat \<Rightarrow> (int \<times> string) \<times> 'w" where
  "direct_get_binary B w key val val_len =
     (case key of None \<Rightarrow> ((- E2BIG, []), w)
      | Some key \<Rightarrow>
          (let key_len = strlen (mem_of key) + 1 in
           if PROP_NAME_MAX < key_len then ((- E2BIG, []), w)
           else (case kvdb_init B w of
                   (ret, w) \<Rightarrow>
                     if ret < 0 then ((ret, []), w)
                     else (case kvdb_get B w (Some (mem_of key)) key_len val val_len of
                             (len, w) \<Rightarrow> (len, kvdb_uninit B w)))))"

definition direct_list_binary :: "'w backend \<Rightarrow> 'w \<Rightarrow> (int \<times> (string \<times> string) list) \<times> 'w" where
  "direct_list_binary B w =
     (case kvdb_init B w of
        (ret, w) \<Rightarrow>
          if ret < 0 then ((ret, []), w)
          else (case kvdb_list B w True of (ret, w) \<Rightarrow> (ret, kvdb_uninit B w)))"

definition direct_api :: "'w backend \<Rightarrow> 'w papi" where
  "direct_api B =
     \<lparr>property_set_binary = direct_set_binary B, property_get_binary = direct_get_binary B,
      property_list_binary = direct_list_binary B\<rparr>"

text \<open>\<open>property_delete\<close> removes the environment variable when there is one.\<close>

definition unsetenv :: "'w proc \<Rightarrow> string \<Rightarrow> int \<times> 'w proc" where
  "unsetenv p key =
     (if key = [] \<or> CHR ''='' \<in> set key then (- EINVAL, p) else (0, p\<lparr>penv := (penv p)(key := None)\<rparr>))"

definition direct_delete :: "'w backend \<Rightarrow> 'w proc \<Rightarrow> string option \<Rightarrow> int \<times> 'w proc" where
  "direct_delete B p key =
     (case key of None \<Rightarrow> (- EINVAL, p)
      | Some key \<Rightarrow>
          (let key_len = strlen (mem_of key) + 1 in
           if PROP_NAME_MAX < key_len then (- E2BIG, p)
           else if penv p key \<noteq> None then unsetenv p key
           else (case kvdb_init B (world p) of
                   (ret, w) \<Rightarrow>
                     if ret < 0 then (ret, p\<lparr>world := w\<rparr>)
                     else (case kvdb_delete B w (Some (mem_of key)) key_len of
                             (ret, w) \<Rightarrow> (ret, p\<lparr>world := kvdb_uninit B w\<rparr>)))))"

definition direct_commit :: "'w proc \<Rightarrow> int \<times> 'w proc" where
  "direct_commit p = (0, p)"

definition direct_reload :: "'w proc \<Rightarrow> int \<times> 'w proc" where
  "direct_reload p = (0, p)"

section \<open>The accessors over a backend with its contract\<close>

context kv_backend
begin

lemma direct_set_good:
  assumes "good_key k" "0 < n" "n < PROP_VALUE_MAX"
  shows "direct_set_binary B w (Some k) val n oneway =
    (case kvdb_init B w of (ret, w) \<Rightarrow>
       if ret < 0 then (ret, w)
       else (case kvdb_set B w (Some (k @ NUL # [])) (Suc (length k)) (Some val) n False of
               (ret, w) \<Rightarrow> (ret, kvdb_uninit B w)))"
  using good_key_wf [OF assms(1)] assms(2,3)
  by (simp add: direct_set_binary_def mem_of_def split: prod.split)

lemma direct_get_good:
  assumes "good_key k"
  shows "direct_get_binary B w (Some k) hb n =
    (case kvdb_init B w of (ret, w) \<Rightarrow>
       if ret < 0 then ((ret, []), w)
       else (case kvdb_get B w (Some (k @ NUL # [])) (Suc (length k)) hb n of
               (len, w) \<Rightarrow> (len, kvdb_uninit B w)))"
  using good_key_wf [OF assms] by (simp add: direct_get_binary_def mem_of_def split: prod.split)

lemma direct_set_law:
  assumes "idle w" "good_key k" "0 < n" "n < PROP_VALUE_MAX" "n \<le> length v"
    and "direct_set_binary B w (Some k) v n oneway = (r, w')"
  shows "idle w' \<and> view w' = (if r < 0 then view w else (view w)(k \<mapsto> take n v))"
proof -
  obtain q w1 where i: "kvdb_init B w = (q, w1)" by (metis prod.exhaust)
  show ?thesis
  proof (cases "q < 0")
    case True
    with i assms(2-4,6) init_law [OF assms(1) i] show ?thesis by (simp add: direct_set_good)
  next
    case False
    with init_law [OF assms(1) i] have w1: "opened w1" "view w1 = view w" by auto
    obtain q2 w2 where s: "kvdb_set B w1 (Some (k @ NUL # [])) (Suc (length k)) (Some v) n False = (q2, w2)"
      by (metis prod.exhaust)
    from set_law [OF w1(1) assms(2,5,4) s] uninit_law [of w2] w1(2) False i s assms(2-4,6)
    show ?thesis by (auto simp: direct_set_good)
  qed
qed

lemma direct_get_law:
  assumes "idle w" "good_key k" and "direct_get_binary B w (Some k) True PROP_VALUE_MAX = ((r, d), w')"
  shows "idle w' \<and> view w' = view w \<and>
    (r < 0 \<and> fst (kvdb_init B w) < 0 \<or>
     (case view w k of None \<Rightarrow> r \<le> 0
      | Some v \<Rightarrow> if v = [] then r \<le> 0 else r = int (length v) \<and> d = v))"
proof -
  obtain q w1 where i: "kvdb_init B w = (q, w1)" by (metis prod.exhaust)
  show ?thesis
  proof (cases "q < 0")
    case True
    with i assms(2,3) init_law [OF assms(1) i] show ?thesis by (simp add: direct_get_good)
  next
    case False
    with init_law [OF assms(1) i] have w1: "opened w1" "view w1 = view w" by auto
    obtain q2 d2 w2 where g: "kvdb_get B w1 (Some (k @ NUL # [])) (Suc (length k)) True PROP_VALUE_MAX = ((q2, d2), w2)"
      by (metis prod.exhaust)
    have "take PROP_VALUE_MAX v = v" if "view w k = Some v" for v
      using view_bound [OF w1(1), of k v] w1(2) that by simp
    with get_law [OF w1(1) assms(2) g] uninit_law [of w2] w1(2) False i g assms(2,3)
    show ?thesis by (auto simp: direct_get_good split: option.splits if_splits)
  qed
qed

end

text \<open>A delete through the accessors: the key is gone, from the environment or from the storage.\<close>

context kv_backend
begin

lemma direct_delete_law:
  assumes "idle (world p)" "good_key k" "direct_delete B p (Some k) = (r, p')"
  shows "idle (world p') \<and>
    (if penv p k = None then penv p' = penv p \<and>
       view (world p') = (if r < 0 then view (world p) else (view (world p))(k := None))
     else view (world p') = view (world p) \<and> (0 \<le> r \<longrightarrow> penv p' = (penv p)(k := None)))"
proof (cases "penv p k")
  case (Some e)
  with assms good_key_wf [OF assms(2)] show ?thesis
    by (auto simp: direct_delete_def unsetenv_def errno_defs split: if_splits)
next
  case None
  obtain q w1 where i: "kvdb_init B (world p) = (q, w1)" by (metis prod.exhaust)
  note init = init_law [OF assms(1) i]
  obtain q2 w2 where d: "kvdb_delete B w1 (Some (k @ NUL # [])) (Suc (length k)) = (q2, w2)"
    by (metis prod.exhaust)
  have eq: "direct_delete B p (Some k) =
      (if q < 0 then (q, p\<lparr>world := w1\<rparr>) else (q2, p\<lparr>world := kvdb_uninit B w2\<rparr>))"
    using None i d good_key_wf [OF assms(2)] by (simp add: direct_delete_def mem_of_def)
  show ?thesis
  proof (cases "q < 0")
    case True
    with eq assms(3) init None show ?thesis by auto
  next
    case False
    with init have w1: "opened w1" by simp
    from delete_law [OF w1 assms(2) d] uninit_law [of w2] eq assms(3) init None False
    show ?thesis by auto
  qed
qed

end

sublocale kv_steady \<subseteq> direct: property_store "direct_api B" view idle good_key "\<lambda>_. True"
proof (unfold_locales, goal_cases)
  case (1 w k v)
  obtain q w1 where i: "kvdb_init B w = (q, w1)" by (metis prod.exhaust)
  with init_ok [OF 1(1)] init_law [OF 1(1) i] have "opened w1" "view w1 = view w" by auto
  with view_bound [of w1 k v] 1(2) show ?case by simp
next
  case (2 w k n v oneway r w')
  from direct_set_law [OF 2(1-5)] 2(6) show ?case by (auto simp: direct_api_def split: if_splits)
next
  case (3 w oneway k n v r w')
  from direct_set_law [OF 3(1,3-6)] 3(7) show ?case by (auto simp: direct_api_def)
next
  case (4 k n w v oneway)
  with good_key_wf [OF 4(1)] show ?case by (auto simp: direct_api_def direct_set_binary_def)
next
  case (5 w k r d w')
  from direct_get_law [OF 5(1,2)] 5(3) init_ok [OF 5(1)] show ?case by (auto simp: direct_api_def)
qed

context kv_steady
begin

lemma direct_store: "property_store (direct_api B) view idle good_key (\<lambda>_. True)"
  by (rule direct.property_store_axioms)

end

lemmas file_direct_store = kv_steady.direct_store [OF fi.kv_steady_axioms]

text \<open>A property that was set to the empty string reads as the empty string and not as the default.\<close>

lemma direct_empty_value:
  assumes "file_inv cfg (world p)" "file_good_key cfg k"
    and "property_set (direct_api (file_backend cfg)) p k None = (r, p1)" "0 \<le> r"
  shows "fst (property_get (direct_api (file_backend cfg)) p1 k (Some PROP_VALUE_MAX) (Some d)) = Inr (0, [])"
proof -
  have "property_set_ow (direct_api (file_backend cfg)) p k (Some []) False = (r, p1)"
    using assms(3) by (simp add: property_set_def property_set_ow_def)
  from property_store.set_get [OF file_direct_store assms(1,2) _ _ this assms(4) TrueI] show ?thesis
    by (simp add: kvdb_consts)
qed

lemmas unq_direct_store = kv_steady.direct_store [OF unq_kv_steady]

lemmas nvs_direct_store = kv_steady.direct_store [OF nvs_kv_steady]

end
