(* ===== verification/Net.thy ===== *)
theory Net
  imports Prelude
begin

text \<open>
  Stream sockets as the client and the server use them: what arrives on a connection is a list of
  segments and errors, in the order in which \<open>recv\<close> meets them, and the messages are byte strings.
\<close>

section \<open>Receiving\<close>

text \<open>
  A \<open>recv\<close> returns what it can of the first segment and leaves the rest; the end of the list is
  the end of the stream (result 0, no bytes). \<open>Inl\<close> is the error number of a failed call.
\<close>

datatype netev = Bytes string | RecvErr int

fun recv :: "nat \<Rightarrow> netev list \<Rightarrow> (int + string) \<times> netev list" where
  "recv n [] = (Inr [], [])"
| "recv n (RecvErr e # rx) = (Inl e, rx)"
| "recv n (Bytes bs # rx) = (Inr (take n bs), if length bs \<le> n then rx else Bytes (drop n bs) # rx)"

lemma recv_length: "recv n rx = (Inr d, rx') \<Longrightarrow> length d \<le> n"
  by (induction n rx rule: recv.induct) (auto split: if_splits)

text \<open>The segments of a stream that carries a given byte string without errors.\<close>

fun carries :: "netev list \<Rightarrow> string \<Rightarrow> bool" where
  "carries [] d \<longleftrightarrow> d = []"
| "carries (Bytes b # rx) d \<longleftrightarrow> b \<noteq> [] \<and> prefix b d \<and> carries rx (drop (length b) d)"
| "carries (RecvErr e # rx) d \<longleftrightarrow> False"

lemma carries_Nil [simp]: "carries rx [] \<longleftrightarrow> rx = []"
  by (induction rx "[] :: string" rule: carries.induct) auto

lemma carries_recv:
  assumes "carries rx d" "d \<noteq> []" "0 < n"
  obtains e d' rx' where "recv n rx = (Inr e, rx')" "e \<noteq> []" "length e \<le> n" "d = e @ d'" "carries rx' d'"
proof -
  have "\<exists>b r rx1. rx = Bytes b # rx1 \<and> b \<noteq> [] \<and> d = b @ r \<and> carries rx1 r"
    using assms(1,2) by (cases "(rx, d)" rule: carries.cases) (auto simp: prefix_def)
  then obtain b r rx1 where b: "rx = Bytes b # rx1" "b \<noteq> []" "d = b @ r" "carries rx1 r" by blast
  show ?thesis
  proof (cases "length b \<le> n")
    case True
    with b show ?thesis by (intro that [of b rx1 r]) auto
  next
    case False
    with b assms(3) show ?thesis
      by (intro that [of "take n b" "Bytes (drop n b) # rx1" "drop n b @ r"]) auto
  qed
qed

section \<open>Numbers in messages\<close>

text \<open>
  A length is stored into one \<open>char\<close> and read back as an unsigned one; a 32-bit result is sent as
  the four bytes of its representation (the same one on both ends).
\<close>

definition byte :: "nat \<Rightarrow> char" where
  "byte n = char_of n"

definition ubyte :: "char \<Rightarrow> nat" where
  "ubyte c = of_char c"

lemma ubyte_byte [simp]: "ubyte (byte n) = n mod 256"
  by (simp add: ubyte_def byte_def)

lemma ubyte_NUL [simp]: "ubyte NUL = 0"
  by (simp add: ubyte_def)

lemma ubyte_less: "ubyte c < 256"
  using ubyte_byte [of "ubyte c"] by (simp add: ubyte_def byte_def)

lemma byte_ubyte [simp]: "byte (ubyte c) = c"
  by (simp add: ubyte_def byte_def)

lemma byte_eq_NUL: "n < 256 \<Longrightarrow> byte n = NUL \<longleftrightarrow> n = 0"
  by (metis byte_ubyte mod_less ubyte_NUL ubyte_byte)

lemma ubyte_eq_0: "ubyte c = 0 \<longleftrightarrow> c = NUL"
  using byte_eq_NUL [OF ubyte_less, of c] by simp

definition bytes32 :: "int \<Rightarrow> string" where
  "bytes32 i = (let n = nat (i mod 2 ^ 32) in
     [byte n, byte (n div 256), byte (n div 256 div 256), byte (n div 256 div 256 div 256)])"

definition int32_of_bytes :: "string \<Rightarrow> int" where
  "int32_of_bytes bs =
     (let n = ubyte (bs ! 0) + 256 * (ubyte (bs ! 1) + 256 * (ubyte (bs ! 2) + 256 * ubyte (bs ! 3)))
      in if n < 2 ^ 31 then int n else int n - 2 ^ 32)"

lemma length_bytes32 [simp]: "length (bytes32 i) = 4"
  by (simp add: bytes32_def Let_def)

lemma int32_of_four_bytes:
  "int32_of_bytes [byte a, byte b, byte c, byte d] =
     (let n = a mod 256 + 256 * (b mod 256 + 256 * (c mod 256 + 256 * (d mod 256)))
      in if n < 2 ^ 31 then int n else int n - 2 ^ 32)"
  unfolding int32_of_bytes_def by (simp only: nth_Cons_0 One_nat_def nth_Cons_Suc numeral_2_eq_2 numeral_3_eq_3 ubyte_byte)

theorem int32_of_bytes32:
  assumes "- (2 ^ 31) \<le> i" "i < 2 ^ 31"
  shows "int32_of_bytes (bytes32 i) = i"
proof -
  define n where "n = nat (i mod 2 ^ 32)"
  have "n div 256 div 256 div 256 = n div 16777216" by (simp add: div_mult2_eq [symmetric])
  moreover have "n < 4294967296" by (simp add: n_def nat_less_iff)
  ultimately have top: "n div 256 div 256 div 256 mod 256 = n div 256 div 256 div 256"
    by (simp add: less_mult_imp_div_less)
  have "n mod 256 + 256 * (n div 256 mod 256 + 256 * (n div 256 div 256 mod 256
      + 256 * (n div 256 div 256 div 256 mod 256))) = n"
    unfolding top by (simp only: mod_mult_div_eq)
  then have v: "int32_of_bytes (bytes32 i) = (if n < 2 ^ 31 then int n else int n - 2 ^ 32)"
    by (simp only: int32_of_four_bytes bytes32_def Let_def n_def [symmetric])
  show ?thesis
  proof (cases "0 \<le> i")
    case True
    with assms have "int n = i" by (simp add: n_def)
    with assms show ?thesis by (simp add: v)
  next
    case False
    have "i mod 2 ^ 32 = (i + 2 ^ 32) mod 2 ^ 32" by simp
    also have "\<dots> = i + 2 ^ 32" using assms False by (intro mod_pos_pos_trivial) auto
    finally have "int n = i + 2 ^ 32" using assms by (simp add: n_def)
    with assms False show ?thesis by (simp add: v)
  qed
qed

end
