(* ===== verification/Client.thy ===== *)
theory Client
  imports Common Direct Net "HOL-Library.Monad_Syntax"
begin

text \<open>
  The accessors of a process that reaches the storage through the server, \<open>kvdb/client.c\<close>. The
  network is a parameter: the results of the socket calls and, for a request that was sent, what
  will arrive on the connection. A call that may retry forever returns an option, \<open>None\<close> when it
  does not return.
\<close>

section \<open>The network\<close>

text \<open>
  \<open>n_socket\<close> returns a descriptor or a negative error number, \<open>n_connect\<close> zero or an error number,
  \<open>n_send\<close> the number of bytes or a negative error number together with what can be received on
  the connection afterwards; \<open>n_malloc\<close> says whether memory is left, \<open>n_errno\<close> is the error number
  an earlier call has left behind.
\<close>

record 'n net =
  n_socket :: "'n \<Rightarrow> int \<times> 'n"
  n_connect :: "'n \<Rightarrow> int \<times> 'n"
  n_send :: "'n \<Rightarrow> string \<Rightarrow> (int \<times> netev list) \<times> 'n"
  n_malloc :: "'n \<Rightarrow> bool"
  n_errno :: "'n \<Rightarrow> int"

text \<open>\<open>recv_safe\<close>, with the error number before and after.\<close>

function recv_safe :: "int \<Rightarrow> netev list \<Rightarrow> cmem \<Rightarrow> nat \<Rightarrow> nat \<Rightarrow> int \<times> int \<times> cmem \<times> netev list" where
  "recv_safe errno rx buf offset len =
     (if offset < len then
        (case recv (len - offset) rx of
           (Inl e, rx) \<Rightarrow> (- e, e, buf, rx)
         | (Inr d, rx) \<Rightarrow>
             if d = [] then (- ENODATA, errno, buf, rx)
             else recv_safe errno rx (mem_write buf offset d) (offset + length d) len)
      else (int len, errno, buf, rx))"
  by pat_completeness auto
termination
  by (relation "measure (\<lambda>(errno, rx, buf, offset, len). len - offset)") (auto simp: neq_Nil_conv)

declare recv_safe.simps [simp del]

text \<open>
  The loop of \<open>property_connect\<close>: while the server has no socket yet the call sleeps and retries.
\<close>

partial_function (option) connect_loop :: "'n net \<Rightarrow> int \<Rightarrow> 'n \<Rightarrow> (int \<times> 'n) option" where
  "connect_loop N fd n =
     (let r = n_connect N n
      in if fst r \<noteq> 0 \<and> fst r \<noteq> ENOENT then Some (- fst r, snd r)
         else if fst r = 0 then Some (fd, snd r)
         else connect_loop N fd (snd r))"

definition property_connect :: "'n net \<Rightarrow> 'n \<Rightarrow> (int \<times> 'n) option" where
  "property_connect N n =
     (case n_socket N n of (fd, n) \<Rightarrow> if fd < 0 then Some (fd, n) else connect_loop N fd n)"

text \<open>The loop returns exactly when some attempt is answered with something else than \<open>ENOENT\<close>.\<close>

definition connect_after :: "'n net \<Rightarrow> nat \<Rightarrow> 'n \<Rightarrow> 'n" where
  "connect_after N k n = ((\<lambda>n. snd (n_connect N n)) ^^ k) n"

lemma connect_after_Suc: "connect_after N (Suc k) n = connect_after N k (snd (n_connect N n))"
  by (simp add: connect_after_def funpow_Suc_right del: funpow.simps)

lemma connect_loop_returns:
  "fst (n_connect N (connect_after N k n)) \<noteq> ENOENT \<Longrightarrow> \<exists>r. connect_loop N fd n = Some r"
proof (induction k arbitrary: n)
  case 0
  then show ?case by (subst connect_loop.simps) (simp add: connect_after_def Let_def)
next
  case (Suc k)
  then have "\<exists>r. connect_loop N fd (snd (n_connect N n)) = Some r" by (simp add: connect_after_Suc)
  then show ?case by (subst connect_loop.simps) (auto simp: Let_def)
qed

lemma connect_loop_answered:
  assumes "connect_loop N fd n = Some r"
  shows "\<exists>k. fst (n_connect N (connect_after N k n)) \<noteq> ENOENT"
proof (rule connect_loop.raw_induct
         [where P = "\<lambda>N fd n r. \<exists>k. fst (n_connect N (connect_after N k n)) \<noteq> ENOENT", OF _ assms])
  fix connect and N :: "'b net" and fd :: int and n :: 'b and r
  assume IH: "\<And>N fd n r. connect N fd n = Some r \<Longrightarrow> \<exists>k. fst (n_connect N (connect_after N k n)) \<noteq> ENOENT"
    and run: "(let r = n_connect N n
      in if fst r \<noteq> 0 \<and> fst r \<noteq> ENOENT then Some (- fst r, snd r)
         else if fst r = 0 then Some (fd, snd r)
         else connect N fd (snd r)) = Some r"
  show "\<exists>k. fst (n_connect N (connect_after N k n)) \<noteq> ENOENT"
  proof (cases "fst (n_connect N n) = ENOENT")
    case False
    then show ?thesis by (intro exI [of _ 0]) (simp add: connect_after_def)
  next
    case True
    with run have "connect N fd (snd (n_connect N n)) = Some r" by (simp add: Let_def errno_defs)
    from IH [OF this] obtain k where "fst (n_connect N (connect_after N k (snd (n_connect N n)))) \<noteq> ENOENT" ..
    then show ?thesis by (intro exI [of _ "Suc k"]) (simp add: connect_after_Suc)
  qed
qed

section \<open>The accessors\<close>

definition recv_err :: "netev list \<Rightarrow> int" where
  "recv_err rx =
     (case fst (recv 4 rx) of
        Inl e \<Rightarrow> - e
      | Inr d \<Rightarrow> if length d < 4 then - EINVAL else int32_of_bytes d)"

definition set_request :: "string \<Rightarrow> cmem \<Rightarrow> nat \<Rightarrow> string" where
  "set_request key val val_len =
     [CHR ''S'', byte (length key + 1), byte val_len] @ mem_of key @ take val_len val"

text \<open>
  \<open>property_set_binary\<close> from its label \<open>again\<close>: a one-way set that the server resets is tried again.
\<close>

partial_function (option) client_set_again ::
  "'n net \<Rightarrow> string \<Rightarrow> bool \<Rightarrow> 'n \<Rightarrow> (int \<times> 'n) option" where
  "client_set_again N req oneway n =
     Option.bind (property_connect N n) (\<lambda>c.
       if fst c < 0 then Some c
       else (let s = n_send N (snd c) req; ret = fst (fst s); rx = snd (fst s); n = snd s
             in if ret < 0 then
                  (if oneway \<and> ret = - ECONNRESET then client_set_again N req oneway n else Some (ret, n))
                else if \<not> oneway then Some (recv_err rx, n)
                else Some (ret, n)))"

definition client_set_binary ::
  "'n net \<Rightarrow> 'n \<Rightarrow> string option \<Rightarrow> cmem \<Rightarrow> nat \<Rightarrow> bool \<Rightarrow> (int \<times> 'n) option" where
  "client_set_binary N n key val val_len oneway =
     (case key of None \<Rightarrow> Some (- EINVAL, n)
      | Some key \<Rightarrow>
          (let key_len = strlen (mem_of key) + 1
           in if PROP_NAME_MAX < key_len then Some (- E2BIG, n)
              else if val_len = 0 \<or> PROP_VALUE_MAX \<le> val_len then Some (- E2BIG, n)
              else client_set_again N (set_request key val val_len) oneway n))"

definition get_request :: "string \<Rightarrow> nat \<Rightarrow> string" where
  "get_request key val_len = [CHR ''G'', byte (length key + 1), byte val_len] @ mem_of key"

definition client_get_binary ::
  "'n net \<Rightarrow> 'n \<Rightarrow> string option \<Rightarrow> bool \<Rightarrow> nat \<Rightarrow> ((int \<times> string) \<times> 'n) option" where
  "client_get_binary N n key val val_len =
     (case key of None \<Rightarrow> Some ((- EINVAL, []), n)
      | Some key \<Rightarrow>
          (let key_len = strlen (mem_of key) + 1
           in if PROP_NAME_MAX < key_len then Some ((- EINVAL, []), n)
              else do {
                (fd, n) \<leftarrow> property_connect N n;
                if fd < 0 then Some ((fd, []), n)
                else (case n_send N n (get_request key val_len) of
                        ((ret, rx), n) \<Rightarrow>
                          if ret < 0 then Some ((ret, []), n)
                          else (case fst (recv (if val then val_len else 1) rx) of
                                  Inl e \<Rightarrow> Some ((- e, []), n)
                                | Inr d \<Rightarrow> Some ((int (length d), if val then d else []), n)))
              }))"

definition delete_request :: "string \<Rightarrow> string" where
  "delete_request key = [CHR ''D'', byte (length key + 1)] @ mem_of key"

definition client_property_delete :: "'n net \<Rightarrow> 'n proc \<Rightarrow> string option \<Rightarrow> (int \<times> 'n proc) option" where
  "client_property_delete N p key =
     (case key of None \<Rightarrow> Some (- EINVAL, p)
      | Some key \<Rightarrow>
          (let key_len = strlen (mem_of key) + 1
           in if PROP_NAME_MAX < key_len then Some (- E2BIG, p)
              else if penv p key \<noteq> None then Some (unsetenv p key)
              else do {
                (fd, n) \<leftarrow> property_connect N (world p);
                if fd < 0 then Some (fd, p\<lparr>world := n\<rparr>)
                else (case n_send N n (delete_request key) of
                        ((ret, rx), n) \<Rightarrow>
                          Some (if ret < 0 then ret else recv_err rx, p\<lparr>world := n\<rparr>))
              }))"

text \<open>
  The loop of \<open>property_list_binary\<close>. Every round takes bytes off the stream, so it ends; a length
  that is too large skips the round without taking its key and value.
\<close>

definition rx_size :: "netev list \<Rightarrow> nat" where
  "rx_size rx = (\<Sum>e \<leftarrow> rx. case e of Bytes b \<Rightarrow> Suc (length b) | RecvErr _ \<Rightarrow> 1)"

lemma recv_rx_size: "recv n rx = (res, rx') \<Longrightarrow> rx_size rx' \<le> rx_size rx"
  by (induction n rx rule: recv.induct) (auto simp: rx_size_def split: if_splits)

lemma recv_rx_size_less: "recv n rx = (Inr d, rx') \<Longrightarrow> d \<noteq> [] \<Longrightarrow> rx_size rx' < rx_size rx"
  by (induction n rx rule: recv.induct) (auto simp: rx_size_def split: if_splits)

lemma recv_rx_size_err: "recv n rx = (Inl e, rx') \<Longrightarrow> rx_size rx' < rx_size rx"
  by (induction n rx rule: recv.induct) (auto simp: rx_size_def split: if_splits)

lemma recv_safe_rx_size:
  "recv_safe errno rx buf offset len = (r, e, buf', rx') \<Longrightarrow> rx_size rx' \<le> rx_size rx \<and>
   (offset < len \<and> 0 \<le> r \<longrightarrow> rx_size rx' < rx_size rx)"
proof (induction errno rx buf offset len rule: recv_safe.induct)
  case (1 errno rx buf offset len)
  show ?case
  proof (cases "offset < len")
    case False
    with "1.prems" show ?thesis by (simp add: recv_safe.simps [of errno rx])
  next
    case True
    obtain res rx1 where r: "recv (len - offset) rx = (res, rx1)" by (metis prod.exhaust)
    show ?thesis
    proof (cases "\<exists>d. res = Inr d \<and> d \<noteq> []")
      case False
      with "1.prems" True r recv_rx_size [OF r] recv_rx_size_err [of "len - offset" rx] show ?thesis
        by (cases res) (auto simp: recv_safe.simps [of errno rx] errno_defs)
    next
      case d: True
      then obtain d where d: "res = Inr d" "d \<noteq> []" by blast
      then have "recv_safe errno rx1 (mem_write buf offset d) (offset + length d) len = (r, e, buf', rx')"
        using "1.prems" True r by (simp add: recv_safe.simps [of errno rx])
      from "1.IH" [OF True r [symmetric] d(1) d(2) this] recv_rx_size_less [OF r [unfolded d(1)] d(2)]
      show ?thesis by simp
    qed
  qed
qed

function client_list_loop :: "int \<Rightarrow> netev list \<Rightarrow> cmem \<Rightarrow> int \<times> (string \<times> string) list" where
  "client_list_loop errno rx msg =
     (case recv_safe errno rx msg 0 2 of
        (ret, errno, msg, rx) \<Rightarrow>
          if ret < 0 then (- errno, [])
          else if msg ! 0 = NUL \<and> msg ! 1 = NUL then (0, [])
          else (let key_len = ubyte (msg ! 0); val_len = ubyte (msg ! 1)
                in if PROP_NAME_MAX < key_len then client_list_loop errno rx msg
                   else if PROP_VALUE_MAX \<le> val_len then client_list_loop errno rx msg
                   else (case recv_safe errno rx msg 2 (key_len + val_len + 2) of
                           (ret, errno, msg, rx) \<Rightarrow>
                             if ret < 0 then (ret, [])
                             else if msg ! (1 + key_len) \<noteq> NUL then client_list_loop errno rx msg
                             else (case client_list_loop errno rx msg of
                                     (r, calls) \<Rightarrow>
                                       (r, (cstr (drop 2 msg), take val_len (drop (2 + key_len) msg)) # calls)))))"
  by pat_completeness auto
termination
  by (relation "measure (\<lambda>(errno, rx, msg). rx_size rx)")
     (auto dest!: recv_safe_rx_size [OF sym])

declare client_list_loop.simps [simp del]

definition client_list_binary ::
  "'n net \<Rightarrow> cmem \<Rightarrow> 'n \<Rightarrow> ((int \<times> (string \<times> string) list) \<times> 'n) option" where
  "client_list_binary N junk n = do {
     (fd, n) \<leftarrow> property_connect N n;
     if fd < 0 then Some ((fd, []), n)
     else (case n_send N n ''L'' of
             ((ret, rx), n) \<Rightarrow>
               if ret < 0 then Some ((ret, []), n)
               else if \<not> n_malloc N n then Some ((- ENOMEM, []), n)
               else Some (client_list_loop (n_errno N n) rx junk, n))
   }"

section \<open>Monitors\<close>

definition monitor_request :: "string \<Rightarrow> string" where
  "monitor_request key = [CHR ''M'', byte (length key + 1)] @ mem_of key"

text \<open>On success the descriptor, with what is still to be received on it.\<close>

definition property_monitor_open ::
  "'n net \<Rightarrow> 'n \<Rightarrow> string option \<Rightarrow> ((int \<times> netev list) \<times> 'n) option" where
  "property_monitor_open N n key =
     (case key of None \<Rightarrow> Some ((- EINVAL, []), n)
      | Some key \<Rightarrow>
          (let key_len = strlen (mem_of key) + 1
           in if PROP_NAME_MAX < key_len then Some ((- E2BIG, []), n)
              else do {
                (fd, n) \<leftarrow> property_connect N n;
                if fd < 0 then Some ((fd, []), n)
                else (case n_send N n (monitor_request key) of
                        ((ret, rx), n) \<Rightarrow>
                          if ret < 0 then Some ((ret, []), n)
                          else (case recv 4 rx of
                                  (Inl e, _) \<Rightarrow> Some ((- e, []), n)
                                | (Inr d, rx) \<Rightarrow>
                                    if length d < 4 then Some ((- EINVAL, []), n)
                                    else if int32_of_bytes d < 0 then Some ((int32_of_bytes d, []), n)
                                    else Some ((fd, rx), n)))
              }))"

text \<open>
  \<open>property_monitor_read\<close>: the result with the key and the value it stored (\<open>newkey\<close> and \<open>newvalue\<close> say
  whether the pointers are not null), and the rest of the stream. \<open>junk\<close> is the fresh buffer.
\<close>

definition property_monitor_read ::
  "bool \<Rightarrow> int \<Rightarrow> cmem \<Rightarrow> netev list \<Rightarrow> bool \<Rightarrow> bool \<Rightarrow> nat \<Rightarrow> (int \<times> string \<times> string) \<times> netev list" where
  "property_monitor_read mem errno junk rx newkey newvalue val_len =
     (if \<not> mem then ((- ENOMEM, [], []), rx)
      else (case recv 2 rx of
              (Inl e, rx) \<Rightarrow> ((- e, [], []), rx)
            | (Inr d, rx) \<Rightarrow>
                if length d < 2 then ((- ENODATA, [], []), rx)
                else (let msg = mem_write junk 0 d; key_len = ubyte (msg ! 0); len = ubyte (msg ! 1)
                      in if PROP_NAME_MAX < key_len then ((- E2BIG, [], []), rx)
                         else if PROP_VALUE_MAX < len then ((- E2BIG, [], []), rx)
                         else (case recv_safe errno rx msg 2 (key_len + len + 2) of
                                 (ret, _, msg, rx) \<Rightarrow>
                                   if ret < 0 then ((ret, [], []), rx)
                                   else (let n = (if newvalue then min val_len len else len)
                                         in ((int n, if newkey then strlcpy (cstr (drop 2 msg)) PROP_NAME_MAX else [],
                                              if newvalue then take n (drop (2 + key_len) msg) else []), rx))))))"

definition property_monitor_close :: "sysres \<Rightarrow> int" where
  "property_monitor_close r = (case r of Fail e \<Rightarrow> - e | _ \<Rightarrow> 0)"

text \<open>
  \<open>property_wait\<close>; \<open>pollres\<close> is the result of \<open>poll\<close> (negative for an error number) with the flag
  \<open>POLLIN\<close>, and \<open>arrived\<close> what has arrived on the channel by then.
\<close>

definition property_wait ::
  "'n net \<Rightarrow> cmem \<Rightarrow> 'n \<Rightarrow> int \<times> bool \<Rightarrow> netev list \<Rightarrow> string option \<Rightarrow> bool \<Rightarrow> bool \<Rightarrow> nat \<Rightarrow>
   ((int \<times> string \<times> string) \<times> 'n) option" where
  "property_wait N junk n pollres arrived key newkey newvalue val_len =
     (if key = None then Some ((- EINVAL, [], []), n)
      else do {
        ((fd, rx), n) \<leftarrow> property_monitor_open N n key;
        if fd < 0 then Some ((fd, [], []), n)
        else if fst pollres < 0 then Some ((fst pollres, [], []), n)
        else if fst pollres = 0 \<or> \<not> snd pollres then Some ((- ETIMEDOUT, [], []), n)
        else Some (fst (property_monitor_read (n_malloc N n) (n_errno N n) junk (rx @ arrived) newkey newvalue val_len), n)
      })"

section \<open>Commit and reload\<close>

text \<open>
  \<open>property_commit\<close> compares the signed result of \<open>recv\<close> with an unsigned size: an error goes past
  the test and returns the variable that was to be received, here \<open>uninit\<close>.
\<close>

definition client_property_commit :: "'n net \<Rightarrow> int \<Rightarrow> 'n \<Rightarrow> (int \<times> 'n) option" where
  "client_property_commit N uninit n = do {
     (fd, n) \<leftarrow> property_connect N n;
     if fd < 0 then Some (fd, n)
     else (case n_send N n ''C'' of
             ((ret, rx), n) \<Rightarrow>
               if ret < 0 then Some (ret, n)
               else (case fst (recv 4 rx) of
                       Inl e \<Rightarrow> Some (uninit, n)
                     | Inr d \<Rightarrow> Some (if length d < 4 then - n_errno N n else int32_of_bytes d, n)))
   }"

definition client_property_reload :: "'n net \<Rightarrow> 'n \<Rightarrow> (int \<times> 'n) option" where
  "client_property_reload N n = do {
     (fd, n) \<leftarrow> property_connect N n;
     if fd < 0 then Some (fd, n)
     else (case n_send N n ''R'' of
             ((ret, rx), n) \<Rightarrow> Some (if 0 < ret then 0 else if ret < 0 then ret else - n_errno N n, n))
   }"

text \<open>The accessors as a store; nothing is known of a call that does not return.\<close>

definition client_api :: "'n net \<Rightarrow> cmem \<Rightarrow> 'n papi" where
  "client_api N junk =
     \<lparr>property_set_binary = \<lambda>n key val val_len oneway. the (client_set_binary N n key val val_len oneway),
      property_get_binary = \<lambda>n key val val_len. the (client_get_binary N n key val val_len),
      property_list_binary = \<lambda>n. the (client_list_binary N junk n)\<rparr>"

end
