(* ===== verification/Fnmatch.thy ===== *)
theory Fnmatch
  imports Prelude
begin

text \<open>
  The C library function \<open>fnmatch\<close> with the flag \<open>FNM_NOESCAPE\<close>, by which the server selects the
  monitors of a key: \<open>*\<close>, \<open>?\<close> and bracket expressions with ranges and a leading exclamation mark; a
  backslash is an ordinary character. Named character classes inside brackets are not modelled.
\<close>

text \<open>
  The items of a bracket expression, from the text after the opening bracket: single characters
  and ranges up to the closing bracket, which is an ordinary character in the first place.
\<close>

fun bracket_items :: "bool \<Rightarrow> string \<Rightarrow> ((char \<times> char) list \<times> string) option" where
  "bracket_items first [] = None"
| "bracket_items first (c # p) =
     (if c = CHR '']'' \<and> \<not> first then Some ([], p)
      else case p of
             d # e # q \<Rightarrow>
               if d = CHR ''-'' \<and> e \<noteq> CHR '']''
               then map_option (\<lambda>(is, r). ((c, e) # is, r)) (bracket_items False q)
               else map_option (\<lambda>(is, r). ((c, c) # is, r)) (bracket_items False p)
           | _ \<Rightarrow> map_option (\<lambda>(is, r). ((c, c) # is, r)) (bracket_items False p))"

definition bracket :: "string \<Rightarrow> (bool \<times> (char \<times> char) list \<times> string) option" where
  "bracket p =
     (case p of
        c # q \<Rightarrow> if c = CHR ''!'' then map_option (\<lambda>(is, r). (True, is, r)) (bracket_items True q)
                 else map_option (\<lambda>(is, r). (False, is, r)) (bracket_items True p)
      | [] \<Rightarrow> None)"

definition in_items :: "char \<Rightarrow> (char \<times> char) list \<Rightarrow> bool" where
  "in_items x is \<longleftrightarrow>
     (\<exists>(a, b) \<in> set is. (of_char a :: nat) \<le> of_char x \<and> of_char x \<le> (of_char b :: nat))"

lemma bracket_items_shorter: "bracket_items first p = Some (is, r) \<Longrightarrow> length r < length p"
proof (induction p arbitrary: first "is" r rule: length_induct)
  case (1 p)
  have IH: "length r' < length q" if "bracket_items f q = Some (js, r')" "length q < length p" for f q js r'
    using 1(1) that by blast
  show ?case
  proof (cases p)
    case (Cons c q)
    from 1(2) [unfolded Cons bracket_items.simps] Cons show ?thesis
      by (auto simp del: bracket_items.simps split: if_splits list.splits dest!: IH)
  qed (use 1(2) in simp)
qed

lemma bracket_shorter: "bracket p = Some (neg, is, r) \<Longrightarrow> length r < length p"
  by (cases p)
     (auto simp: bracket_def simp del: bracket_items.simps dest!: bracket_items_shorter split: if_splits)

function fnmatch :: "string \<Rightarrow> string \<Rightarrow> bool" where
  "fnmatch [] s \<longleftrightarrow> s = []"
| "fnmatch (c # p) s \<longleftrightarrow>
     (if c = CHR ''*'' then fnmatch p s \<or> (case s of [] \<Rightarrow> False | _ # s' \<Rightarrow> fnmatch (c # p) s')
      else case s of [] \<Rightarrow> False
      | x # s' \<Rightarrow>
          if c = CHR ''?'' then fnmatch p s'
          else if c = CHR ''['' then
            (case bracket p of
               None \<Rightarrow> x = c \<and> fnmatch p s'
             | Some (neg, is, r) \<Rightarrow> in_items x is \<noteq> neg \<and> fnmatch r s')
          else x = c \<and> fnmatch p s')"
  by pat_completeness auto
termination
  by (relation "measure (\<lambda>(p, s). length p + length s)") (auto dest: bracket_shorter)

declare fnmatch.simps [simp del]

lemma fnmatch_Nil [simp]: "fnmatch [] s \<longleftrightarrow> s = []"
  by (simp add: fnmatch.simps)

lemma fnmatch_star_Nil [simp]: "fnmatch (CHR ''*'' # p) [] \<longleftrightarrow> fnmatch p []"
  by (simp add: fnmatch.simps)

lemma fnmatch_star_Cons [simp]:
  "fnmatch (CHR ''*'' # p) (x # s) \<longleftrightarrow> fnmatch p (x # s) \<or> fnmatch (CHR ''*'' # p) s"
  by (simp add: fnmatch.simps(2) [of _ p "x # s"])

text \<open>A star matches any run of characters, and a pattern without wildcards only itself.\<close>

theorem fnmatch_star: "fnmatch (CHR ''*'' # p) s \<longleftrightarrow> (\<exists>u v. s = u @ v \<and> fnmatch p v)"
proof (induction s)
  case (Cons x s)
  have "(\<exists>u v. x # s = u @ v \<and> fnmatch p v) \<longleftrightarrow> fnmatch p (x # s) \<or> (\<exists>u v. s = u @ v \<and> fnmatch p v)"
    by (auto simp: Cons_eq_append_conv)
  with Cons show ?case by simp
qed simp

definition wildcards :: "char list" where "wildcards = ''*?[''"

theorem fnmatch_plain:
  assumes "set p \<inter> set wildcards = {}"
  shows "fnmatch (p @ q) s \<longleftrightarrow> (\<exists>v. s = p @ v \<and> fnmatch q v)"
  using assms
proof (induction p arbitrary: s)
  case (Cons c p)
  then have "c \<noteq> CHR ''*''" "c \<noteq> CHR ''?''" "c \<noteq> CHR ''[''" by (auto simp: wildcards_def)
  with Cons show ?case by (cases s) (auto simp: fnmatch.simps)
qed simp

corollary fnmatch_literal: "set p \<inter> set wildcards = {} \<Longrightarrow> fnmatch p s \<longleftrightarrow> s = p"
  using fnmatch_plain [of p "[]" s] by auto

end
