(* ===== verification/Monitor.thy ===== *)
theory Monitor
  imports Libc Keyspace Net Fnmatch
begin

text \<open>
  The state of the server, \<open>kvdb_server\<close> of \<open>kvdb/server.c\<close>, and its key monitors: opening a monitor
  channel, closing it when the peer hangs up, and notifying the channels of a changed key.
\<close>

section \<open>The state of the server\<close>

text \<open>
  A monitor is a heap object with an address. Every allocated monitor is on the list of the
  server, so an address that is not on it is that of a freed (or never allocated) object. An
  event of the poll set carries a pointer to the descriptor of a listening socket or to a monitor.
\<close>

record monitor =
  mon_addr :: nat
  mon_fd :: int
  mon_key :: string

datatype evptr = PListen nat | PMon nat

text \<open>
  Beside the fields of \<open>kvdb_server\<close> (the storage, the listening descriptors, the list of monitors)
  the state has what the kernel keeps for the process: the poll set, the open connection
  descriptors, the bytes sent on each descriptor so far, the results of the coming system calls,
  the next heap address; and, for the property files, the files with the time at which they
  become visible, and the clock in milliseconds.
\<close>

record 'w server =
  kvdb :: 'w
  lfd :: "int list"
  head :: "monitor list"
  watch :: "(int \<times> evptr) list"
  conns :: "int list"
  sent :: "(int \<times> string) list"
  sys :: "sysres list"
  brk :: nat
  srcs :: "(string \<times> nat \<times> string) list"
  clock :: nat

definition syscall :: "'w server \<Rightarrow> sysres \<times> 'w server" where
  "syscall s = (case sys_next (sys s) of (r, rs) \<Rightarrow> (r, s\<lparr>sys := rs\<rparr>))"

text \<open>\<open>send\<close> and \<open>sendmsg\<close> return the number of bytes sent or \<open>-1\<close>; \<open>close\<close>.\<close>

definition server_send :: "'w server \<Rightarrow> int \<Rightarrow> string \<Rightarrow> int \<times> 'w server" where
  "server_send s fd bs =
     (case syscall s of
        (Fail e, s) \<Rightarrow> (- 1, s)
      | (Short n, s) \<Rightarrow> (int (length (take n bs)), s\<lparr>sent := sent s @ [(fd, take n bs)]\<rparr>)
      | (Full, s) \<Rightarrow> (int (length bs), s\<lparr>sent := sent s @ [(fd, bs)]\<rparr>))"

definition server_close :: "'w server \<Rightarrow> int \<Rightarrow> 'w server" where
  "server_close s fd = s\<lparr>conns := removeAll fd (conns s)\<rparr>"

definition epoll_del :: "'w server \<Rightarrow> int \<Rightarrow> 'w server" where
  "epoll_del s fd = s\<lparr>watch := filter (\<lambda>(f, p). f \<noteq> fd) (watch s)\<rparr>"

definition list_remove :: "'w server \<Rightarrow> nat \<Rightarrow> 'w server" where
  "list_remove s a = s\<lparr>head := filter (\<lambda>m. mon_addr m \<noteq> a) (head s)\<rparr>"

section \<open>Monitors\<close>

text \<open>
  \<open>kvdb_monitor_open\<close> allocates room for \<open>key_len\<close> characters of the key, so that a copy of a longer
  string is a write out of bounds. Adding a descriptor that is in the poll set fails.
\<close>

definition kvdb_monitor_open :: "'w server \<Rightarrow> int \<Rightarrow> cmem \<Rightarrow> nat \<Rightarrow> fault + int \<times> 'w server" where
  "kvdb_monitor_open s fd key key_len =
     (case syscall s of
        (Fail _, s) \<Rightarrow> Inr (- ENOMEM, s)
      | (_, s) \<Rightarrow>
          (let mon = brk s; s = s\<lparr>brk := brk s + 1\<rparr>
           in case syscall s of
                (Fail _, s) \<Rightarrow> Inr (- 1, s)
              | (_, s) \<Rightarrow>
                  if fd \<in> fst ` set (watch s) then Inr (- 1, s)
                  else if key_len < strlen key + 1 then Inl OutOfBounds
                  else Inr (0, s\<lparr>watch := (fd, PMon mon) # watch s,
                                 head := \<lparr>mon_addr = mon, mon_fd = fd, mon_key = cstr key\<rparr> # head s\<rparr>)))"

definition find_mon :: "'w server \<Rightarrow> nat \<Rightarrow> monitor option" where
  "find_mon s a = find (\<lambda>m. mon_addr m = a) (head s)"

definition kvdb_monitor_close :: "'w server \<Rightarrow> nat \<Rightarrow> fault + 'w server" where
  "kvdb_monitor_close s mon =
     (case find_mon s mon of
        None \<Rightarrow> Inl UseAfterFree
      | Some m \<Rightarrow> Inr (list_remove (server_close (epoll_del s (mon_fd m)) (mon_fd m)) mon))"

text \<open>
  The message of a notification, and the loop over the monitors: the safe iteration visits the
  elements that were on the list at its start, each of which may remove itself.
\<close>

definition notify_msg :: "cmem \<Rightarrow> cmem option \<Rightarrow> nat \<Rightarrow> string" where
  "notify_msg key val val_len =
     (let key_len = strlen key + 1
      in [byte key_len, byte val_len] @ take key_len key @
         (case val of None \<Rightarrow> [] | Some v \<Rightarrow> take val_len v))"

fun notify_loop :: "'w server \<Rightarrow> string \<Rightarrow> string \<Rightarrow> monitor list \<Rightarrow> 'w server" where
  "notify_loop s key msg [] = s"
| "notify_loop s key msg (m # ms) =
     (if \<not> fnmatch (mon_key m) key then notify_loop s key msg ms
      else case server_send s (mon_fd m) msg of
             (r, s) \<Rightarrow>
               if r < 0
               then notify_loop (server_close (epoll_del (list_remove s (mon_addr m)) (mon_fd m)) (mon_fd m))
                      key msg ms
               else notify_loop s key msg ms)"

text \<open>The key is read up to its terminator, which must lie inside the message buffer.\<close>

definition kvdb_monitor_notify :: "'w server \<Rightarrow> cmem \<Rightarrow> cmem option \<Rightarrow> nat \<Rightarrow> fault + 'w server" where
  "kvdb_monitor_notify s key val val_len =
     (if NUL \<notin> set key then Inl OutOfBounds
      else Inr (notify_loop s (cstr key) (notify_msg key val val_len) (head s)))"

section \<open>The monitor invariant\<close>

text \<open>
  Addresses and descriptors of the monitors are distinct; the poll set has exactly the listening
  sockets that are open and the monitors, each with a pointer to itself; the open connections
  are the descriptors of the monitors and those in \<open>extra\<close> (the connection being served); no
  monitor shares its descriptor with a listening socket.
\<close>

definition listen_watch :: "int list \<Rightarrow> (int \<times> evptr) set" where
  "listen_watch fds = {(fds ! i, PListen i) | i. i < length fds \<and> 0 \<le> fds ! i}"

definition mon_watch :: "monitor \<Rightarrow> int \<times> evptr" where
  "mon_watch m = (mon_fd m, PMon (mon_addr m))"

definition mon_inv :: "int set \<Rightarrow> 'w server \<Rightarrow> bool" where
  "mon_inv extra s \<longleftrightarrow>
     distinct (map mon_addr (head s)) \<and> distinct (map mon_fd (head s)) \<and>
     (\<forall>m \<in> set (head s). mon_addr m < brk s) \<and>
     set (watch s) = listen_watch (lfd s) \<union> mon_watch ` set (head s) \<and>
     set (conns s) = mon_fd ` set (head s) \<union> extra \<and>
     mon_fd ` set (head s) \<inter> (set (lfd s) \<union> extra) = {}"

lemma listen_watch_fd: "x \<in> listen_watch fds \<Longrightarrow> fst x \<in> set fds"
  by (auto simp: listen_watch_def)

lemmas server_step_defs = server_close_def epoll_del_def list_remove_def

lemma syscall_eq: "syscall s = (r, s') \<Longrightarrow> s' = s\<lparr>sys := snd (sys_next (sys s))\<rparr>"
  by (auto simp: syscall_def split: prod.splits)

lemma syscall_quiet [simp]: "sys s = [] \<Longrightarrow> syscall s = (Full, s)"
  by (simp add: syscall_def)

lemma server_send_eq:
  "server_send s fd bs = (r, s') \<Longrightarrow> \<exists>rs l. s' = s\<lparr>sys := rs, sent := l\<rparr>"
  by (auto simp: server_send_def dest!: syscall_eq split: prod.splits sysres.splits)
     (metis server.surjective server.update_convs(6,7))+

lemma server_send_quiet:
  "sys s = [] \<Longrightarrow> server_send s fd bs = (int (length bs), s\<lparr>sent := sent s @ [(fd, bs)]\<rparr>)"
  by (simp add: server_send_def)

lemma mon_inv_io [simp]:
  "mon_inv extra (s\<lparr>sys := rs\<rparr>) = mon_inv extra s"
  "mon_inv extra (s\<lparr>sent := l\<rparr>) = mon_inv extra s"
  "mon_inv extra (s\<lparr>kvdb := w\<rparr>) = mon_inv extra s"
  "mon_inv extra (s\<lparr>clock := t\<rparr>) = mon_inv extra s"
  by (simp_all add: mon_inv_def)

text \<open>Two states with the same monitors and connections, on which the same was sent.\<close>

definition same_mons :: "'w server \<Rightarrow> 'w server \<Rightarrow> bool" where
  "same_mons s s' \<longleftrightarrow> lfd s' = lfd s \<and> head s' = head s \<and> watch s' = watch s \<and> conns s' = conns s
     \<and> brk s' = brk s \<and> sent s' = sent s \<and> srcs s' = srcs s"

lemma same_mons_refl [simp, intro]: "same_mons s s"
  by (simp add: same_mons_def)

lemma same_mons_trans: "same_mons s t \<Longrightarrow> same_mons t u \<Longrightarrow> same_mons s u"
  by (simp add: same_mons_def)

lemma same_mons_upd [simp]:
  "same_mons s (t\<lparr>kvdb := w\<rparr>) = same_mons s t" "same_mons s (t\<lparr>sys := rs\<rparr>) = same_mons s t"
  "same_mons s (t\<lparr>clock := c\<rparr>) = same_mons s t"
  by (simp_all add: same_mons_def)

lemma same_mons_inv: "same_mons s s' \<Longrightarrow> mon_inv extra s' = mon_inv extra s"
  by (simp add: same_mons_def mon_inv_def)

text \<open>Taking one monitor off the list, out of the poll set and closing its descriptor.\<close>

definition drop_mon :: "'w server \<Rightarrow> monitor \<Rightarrow> 'w server" where
  "drop_mon s m = s\<lparr>head := filter (\<lambda>n. mon_addr n \<noteq> mon_addr m) (head s),
     watch := filter (\<lambda>(f, p). f \<noteq> mon_fd m) (watch s), conns := removeAll (mon_fd m) (conns s)\<rparr>"

lemma drop_mon_eqs:
  "server_close (epoll_del (list_remove s (mon_addr m)) (mon_fd m)) (mon_fd m) = drop_mon s m"
  "list_remove (server_close (epoll_del s (mon_fd m)) (mon_fd m)) (mon_addr m) = drop_mon s m"
  by (simp_all add: server_step_defs drop_mon_def)

lemma drop_mon_simps [simp]:
  "kvdb (drop_mon s m) = kvdb s" "lfd (drop_mon s m) = lfd s" "brk (drop_mon s m) = brk s"
  "sys (drop_mon s m) = sys s" "sent (drop_mon s m) = sent s"
  "srcs (drop_mon s m) = srcs s" "clock (drop_mon s m) = clock s"
  "head (drop_mon s m) = filter (\<lambda>n. mon_addr n \<noteq> mon_addr m) (head s)"
  by (simp_all add: drop_mon_def)

lemma mon_inv_drop:
  assumes inv: "mon_inv extra s" and m: "m \<in> set (head s)"
  shows "mon_inv extra (drop_mon s m)"
proof -
  note d = inv [unfolded mon_inv_def]
  have same: "mon_addr n = mon_addr m \<longleftrightarrow> n = m" "mon_fd n = mon_fd m \<longleftrightarrow> n = m" if "n \<in> set (head s)" for n
    using that m d by (auto simp: distinct_map dest: inj_onD)
  have h: "set (head (drop_mon s m)) = set (head s) - {m}" using same by auto
  have fd: "mon_fd ` (set (head s) - {m}) = mon_fd ` set (head s) - {mon_fd m}" using same m by auto
  have m_fd: "mon_fd m \<notin> set (lfd s)" "mon_fd m \<notin> extra" using d m by auto
  have "set (watch (drop_mon s m)) = {x \<in> set (watch s). fst x \<noteq> mon_fd m}"
    by (auto simp: drop_mon_def)
  also have "\<dots> = listen_watch (lfd s) \<union> mon_watch ` (set (head s) - {m})"
    using d m_fd same m by (auto simp: mon_watch_def dest: listen_watch_fd)
  finally have "set (watch (drop_mon s m)) = listen_watch (lfd s) \<union> mon_watch ` (set (head s) - {m})" .
  moreover have "set (conns (drop_mon s m)) = (mon_fd ` set (head s) - {mon_fd m}) \<union> extra"
    using d m_fd by (auto simp: drop_mon_def)
  moreover have "distinct (map mon_addr (head (drop_mon s m)))" "distinct (map mon_fd (head (drop_mon s m)))"
    using d by (simp_all add: distinct_map_filter)
  moreover have "\<forall>n \<in> set (head s) - {m}. mon_addr n < brk s"
    "(mon_fd ` set (head s) - {mon_fd m}) \<inter> (set (lfd s) \<union> extra) = {}"
    using d by blast+
  ultimately show ?thesis unfolding mon_inv_def h fd drop_mon_simps(2,3) by (intro conjI)
qed

lemma find_mon_Some: "find_mon s a = Some m \<Longrightarrow> m \<in> set (head s) \<and> mon_addr m = a"
  by (auto simp: find_mon_def find_Some_iff)

lemma find_mon_None: "find_mon s a = None \<longleftrightarrow> (\<forall>m \<in> set (head s). mon_addr m \<noteq> a)"
  by (auto simp: find_mon_def find_None_iff)

theorem kvdb_monitor_close_inv:
  assumes "mon_inv extra s" "kvdb_monitor_close s a = Inr s'"
  shows "mon_inv extra s' \<and> kvdb s' = kvdb s"
  using assms mon_inv_drop
  by (auto simp: kvdb_monitor_close_def drop_mon_eqs dest!: find_mon_Some split: option.splits)

text \<open>
  Opening a monitor: the connection becomes a monitor, or the call fails and the connection is
  left as it was.
\<close>

theorem kvdb_monitor_open_inv:
  assumes inv: "mon_inv (insert fd L) s" and fd: "fd \<notin> set (lfd s)" "fd \<notin> L"
    and eq: "kvdb_monitor_open s fd key key_len = Inr (r, s')"
  shows "kvdb s' = kvdb s \<and> lfd s' = lfd s \<and>
    (if r < 0 then mon_inv (insert fd L) s' \<and> head s' = head s else
    mon_inv L s' \<and> (\<exists>a. head s' = \<lparr>mon_addr = a, mon_fd = fd, mon_key = cstr key\<rparr> # head s))"
proof -
  let ?s = "\<lambda>rs. s\<lparr>brk := Suc (brk s), sys := rs\<rparr>"
  let ?m = "\<lparr>mon_addr = brk s, mon_fd = fd, mon_key = cstr key\<rparr>"
  have brk: "mon_inv (insert fd L) (?s rs)" for rs using inv by (auto simp: mon_inv_def)
  have new: "mon_inv L ((?s rs)\<lparr>watch := (fd, PMon (brk s)) # watch s, head := ?m # head s\<rparr>)" for rs
    using inv fd by (auto simp: mon_inv_def mon_watch_def)
  from eq have "\<exists>rs. r = - ENOMEM \<and> s' = s\<lparr>sys := rs\<rparr> \<or> r = - 1 \<and> s' = ?s rs \<or>
      r = 0 \<and> s' = (?s rs)\<lparr>watch := (fd, PMon (brk s)) # watch s, head := ?m # head s\<rparr>"
    by (auto simp: kvdb_monitor_open_def Let_def dest!: syscall_eq split: prod.splits sysres.splits if_splits)
  then show ?thesis using inv brk new by (auto simp: errno_defs)
qed

text \<open>Accepting and closing a connection.\<close>

lemma mon_inv_accept:
  "mon_inv L s \<Longrightarrow> fd \<notin> set (conns s) \<Longrightarrow> mon_inv (insert fd L) (s\<lparr>conns := fd # conns s\<rparr>)"
  by (auto simp: mon_inv_def)

lemma mon_inv_close:
  "mon_inv (insert fd L) s \<Longrightarrow> fd \<notin> L \<Longrightarrow> mon_inv L (server_close s fd)"
  by (auto simp: mon_inv_def server_close_def)

lemma server_send_state:
  "server_send s fd bs = (r, s') \<Longrightarrow>
   kvdb s' = kvdb s \<and> lfd s' = lfd s \<and> head s' = head s \<and> conns s' = conns s \<and> mon_inv L s' = mon_inv L s"
  by (auto dest!: server_send_eq)

text \<open>Notifying keeps the invariant, whatever the sends do, and only ever removes monitors.\<close>

lemma notify_loop_inv:
  assumes "mon_inv extra s" "set ms \<subseteq> set (head s)" "distinct (map mon_addr ms)"
  shows "mon_inv extra (notify_loop s key msg ms) \<and> kvdb (notify_loop s key msg ms) = kvdb s
    \<and> lfd (notify_loop s key msg ms) = lfd s \<and> set (head (notify_loop s key msg ms)) \<subseteq> set (head s)"
  using assms
proof (induction ms arbitrary: s)
  case (Cons m ms)
  obtain r s1 where snd: "server_send s (mon_fd m) msg = (r, s1)" by (metis prod.exhaust)
  from server_send_eq [OF this] obtain rs l where s1: "s1 = s\<lparr>sys := rs, sent := l\<rparr>" by blast
  have i1: "mon_inv extra s1" "head s1 = head s" "kvdb s1 = kvdb s" "lfd s1 = lfd s"
    using Cons.prems(1) s1 by simp_all
  from Cons.prems i1 have "m \<in> set (head s1)" by simp
  note drop = mon_inv_drop [OF i1(1) this]
  have ms: "set ms \<subseteq> set (head (drop_mon s1 m))" using Cons.prems i1 by (fastforce simp: image_iff)
  show ?case
    using Cons.IH [OF Cons.prems(1)] Cons.IH [OF i1(1)] Cons.IH [OF drop ms] Cons.prems snd i1
    by (auto simp: drop_mon_eqs)
qed simp

theorem kvdb_monitor_notify_inv:
  assumes "mon_inv extra s" "kvdb_monitor_notify s key val val_len = Inr s'"
  shows "mon_inv extra s' \<and> kvdb s' = kvdb s \<and> lfd s' = lfd s \<and> set (head s') \<subseteq> set (head s)"
proof -
  have "distinct (map mon_addr (head s))" using assms(1) by (simp add: mon_inv_def)
  with notify_loop_inv [OF assms(1) subset_refl this] assms(2) show ?thesis
    by (auto simp: kvdb_monitor_notify_def split: if_splits)
qed

text \<open>When no send fails, exactly the monitors whose pattern matches receive the message.\<close>

lemma notify_loop_quiet:
  assumes "sys s = []"
  shows "notify_loop s key msg ms =
    s\<lparr>sent := sent s @ map (\<lambda>m. (mon_fd m, msg)) (filter (\<lambda>m. fnmatch (mon_key m) key) ms)\<rparr>"
  using assms by (induction ms arbitrary: s) (simp_all add: server_send_quiet)

theorem kvdb_monitor_notify_quiet:
  assumes "sys s = []" "cstring k"
  shows "kvdb_monitor_notify s (k @ NUL # m) val n =
    Inr (s\<lparr>sent := sent s @ map (\<lambda>mon. (mon_fd mon,
        [byte (length k + 1), byte n] @ k @ NUL # (case val of None \<Rightarrow> [] | Some v \<Rightarrow> take n v)))
      (filter (\<lambda>mon. fnmatch (mon_key mon) k) (head s))\<rparr>)"
  using assms by (simp add: kvdb_monitor_notify_def notify_loop_quiet notify_msg_def)

end
