(* ===== verification/Loader.thy ===== *)
theory Loader
  imports Monitor
begin

text \<open>
  Loading the property files, \<open>kvdb_load\<close> of \<open>kvdb/server.c\<close>: the list of paths, the wait for the
  file system, the reading of lines and their splitting into key and value.
\<close>

section \<open>Lines\<close>

definition blank :: "char \<Rightarrow> bool" where
  "blank c \<longleftrightarrow> c \<in> {CHR '' '', CHR 0x09, CHR 0x0D, CHR 0x0A}"

definition kvdb_is_comment :: "cmem \<Rightarrow> bool" where
  "kvdb_is_comment line =
     (case dropWhile blank (cstr line) of [] \<Rightarrow> True | c # _ \<Rightarrow> c = CHR ''#'')"

text \<open>
  \<open>fgets\<close> with a buffer of size \<open>n\<close>: at most \<open>n - 1\<close> characters, up to and including a newline; the
  line and what is left of the file.
\<close>

definition fgets :: "nat \<Rightarrow> string \<Rightarrow> string \<times> string" where
  "fgets n s =
     (let l = takeWhile (\<lambda>c. c \<noteq> CHR 0x0A) (take (n - 1) s);
          line = (if length l < length (take (n - 1) s) then l @ [CHR 0x0A] else l)
      in (line, drop (length line) s))"

text \<open>\<open>strtok_r\<close> with one delimiter: the token and the text after the delimiter that ends it.\<close>

definition strtok :: "char \<Rightarrow> string \<Rightarrow> (string \<times> string) option" where
  "strtok d s =
     (let t = dropWhile (\<lambda>c. c = d) s; tok = takeWhile (\<lambda>c. c \<noteq> d) t
      in if t = [] then None else Some (tok, drop (Suc (length tok)) t))"

lemma fgets_progress:
  assumes "s \<noteq> []" "1 < n"
  shows "length (snd (fgets n s)) < length s"
proof -
  from assms(2) obtain m where n: "n - 1 = Suc m" by (metis Suc_diff_Suc diff_Suc_1 One_nat_def)
  with assms(1) show ?thesis by (cases s) (auto simp: fgets_def Let_def)
qed

lemma fgets_length: "0 < n \<Longrightarrow> length (fst (fgets n s)) < n"
  using length_takeWhile_le [of "\<lambda>c. c \<noteq> CHR 0x0A" "take (n - 1) s"]
  by (auto simp: fgets_def Let_def)

text \<open>The key and the value of a line, or none when the line is skipped.\<close>

definition load_entry :: "string \<Rightarrow> (string \<times> string) option" where
  "load_entry line =
     (if kvdb_is_comment line then None
      else case strtok (CHR ''='') (cstr line) of
             None \<Rightarrow> None
           | Some (key, tmp) \<Rightarrow>
               (case strtok (CHR 0x0A) tmp of None \<Rightarrow> None | Some (val, _) \<Rightarrow> Some (key, val)))"

definition load_line :: "'w backend \<Rightarrow> bool \<Rightarrow> 'w \<Rightarrow> string \<Rightarrow> 'w" where
  "load_line B force w line =
     (case load_entry line of
        None \<Rightarrow> w
      | Some (key, val) \<Rightarrow>
          (let key_len = strlen (mem_of key) + 1;
               (known, w) = (if force then (False, w)
                             else case kvdb_get B w (Some (mem_of key)) key_len False 0 of
                                    ((r, _), w) \<Rightarrow> (0 \<le> r, w))
           in if known then w
              else snd (kvdb_set B w (Some (mem_of key)) key_len (Some (mem_of val))
                          (strlen (mem_of val) + 1) True)))"

text \<open>The loop over the lines of one file.\<close>

function load_lines :: "'w backend \<Rightarrow> bool \<Rightarrow> 'w \<Rightarrow> string \<Rightarrow> 'w" where
  "load_lines B force w content =
     (if content = [] then w
      else (let (line, rest) = fgets PROP_MSG_MAX content
            in load_lines B force (load_line B force w line) rest))"
  by pat_completeness auto
termination
proof (relation "measure (\<lambda>(B, force, w, content). length content)", simp, clarify)
  fix content line rest :: string
  assume "content \<noteq> []" "(line, rest) = fgets PROP_MSG_MAX content"
  with fgets_progress [of content PROP_MSG_MAX]
  show "((B, force, load_line B force w line, rest), B, force, w, content)
      \<in> measure (\<lambda>(B, force, w, content). length content)" for B :: "'w backend" and force w
    by (cases "fgets PROP_MSG_MAX content") (simp add: kvdb_consts)
qed

declare load_lines.simps [simp del]

section \<open>Files\<close>

definition accessible :: "'w server \<Rightarrow> string \<Rightarrow> string option" where
  "accessible s path =
     (case map_of (srcs s) path of
        Some (t, content) \<Rightarrow> if t \<le> clock s then Some content else None
      | None \<Rightarrow> None)"

text \<open>The wait for a file: one millisecond per failed \<open>access\<close> while retries are left.\<close>

function load_wait :: "'w server \<Rightarrow> string \<Rightarrow> int \<Rightarrow> int \<times> 'w server" where
  "load_wait s path retry =
     (if accessible s path \<noteq> None then (retry, s)
      else if 0 < retry then load_wait (s\<lparr>clock := clock s + 1\<rparr>) path (retry - 1)
      else (retry - 1, s))"
  by pat_completeness auto
termination
  by (relation "measure (\<lambda>(s, path, retry). nat retry)") auto

declare load_wait.simps [simp del]

definition load_file :: "'w backend \<Rightarrow> bool \<Rightarrow> 'w server \<Rightarrow> string \<Rightarrow> 'w server" where
  "load_file B force s path =
     (case syscall s of
        (Fail _, s) \<Rightarrow> s
      | (_, s) \<Rightarrow>
          (case accessible s path of
             None \<Rightarrow> s
           | Some content \<Rightarrow> s\<lparr>kvdb := load_lines B force (kvdb s) content\<rparr>))"

text \<open>The next path of a list with semicolons, cut to the buffer, and the rest of the list.\<close>

definition next_path :: "string \<Rightarrow> string \<times> string" where
  "next_path src =
     (let p = takeWhile (\<lambda>c. c \<noteq> CHR '';'') src
      in if CHR '';'' \<in> set src then (strlcpy src (min PATH_MAX (length p + 1)), drop (length p + 1) src)
         else (src, []))"

function load_paths :: "'w backend \<Rightarrow> bool \<Rightarrow> 'w server \<Rightarrow> string \<Rightarrow> int \<Rightarrow> 'w server" where
  "load_paths B force s src retry =
     (if src = [] then s
      else (let (path, rest) = next_path src
            in case load_wait s path retry of
                 (retry, s) \<Rightarrow> load_paths B force (load_file B force s path) rest retry))"
  by pat_completeness auto
termination
  by (relation "measure (\<lambda>(B, force, s, src, retry). length src)")
     (auto simp: next_path_def Let_def split: if_splits)

declare load_paths.simps [simp del]

definition kvdb_load :: "'w backend \<Rightarrow> 'w server \<Rightarrow> string \<Rightarrow> bool \<Rightarrow> int \<times> 'w server" where
  "kvdb_load B s src force =
     (case syscall s of
        (Fail _, s) \<Rightarrow> (- ENOMEM, s)
      | (_, s) \<Rightarrow>
          (case syscall s of
             (Fail _, s) \<Rightarrow> (- ENOMEM, s)
           | (_, s) \<Rightarrow>
               (let s = load_paths B force s src 20
                in (0, s\<lparr>kvdb := snd (kvdb_commit B (kvdb s))\<rparr>))))"

section \<open>Parsing what was printed\<close>

text \<open>A line \<open>key=value\<close> whose key starts with a character that is neither blank nor a comment sign.\<close>

definition plain_entry :: "string \<times> string \<Rightarrow> bool" where
  "plain_entry e =
     (case e of (k, v) \<Rightarrow>
        k \<noteq> [] \<and> \<not> blank (hd k) \<and> hd k \<noteq> CHR ''#'' \<and> v \<noteq> [] \<and>
        set k \<inter> {NUL, CHR ''='', CHR 0x0A} = {} \<and> set v \<inter> {NUL, CHR 0x0A} = {} \<and>
        length k + length v + 2 < PROP_MSG_MAX)"

definition print_entry :: "string \<times> string \<Rightarrow> string" where
  "print_entry e = (case e of (k, v) \<Rightarrow> k @ ''='' @ v @ [CHR 0x0A])"

lemma strtok_token:
  assumes "tok \<noteq> []" "d \<notin> set tok"
  shows "strtok d (tok @ d # r) = Some (tok, r)"
proof -
  have "dropWhile (\<lambda>c. c = d) (tok @ d # r) = tok @ d # r" using assms by (cases tok) auto
  moreover have "takeWhile (\<lambda>c. c \<noteq> d) (tok @ d # r) = tok"
    using assms by (intro takeWhile_append_stop) auto
  ultimately show ?thesis by (simp add: strtok_def)
qed

theorem load_entry_print:
  assumes "plain_entry e"
  shows "load_entry (print_entry e) = Some e"
proof -
  obtain k v where e: "e = (k, v)" by (cases e)
  note p = assms [unfolded plain_entry_def e, simplified]
  obtain c k' where k: "k = c # k'" using p by (cases k) auto
  let ?l = "k @ CHR ''='' # v @ [CHR 0x0A]"
  have l: "cstr ?l = ?l" using p by (intro cstr_id) (auto simp: cstring_def)
  have "\<not> kvdb_is_comment ?l" unfolding kvdb_is_comment_def l using p k by simp
  moreover have "strtok (CHR ''='') ?l = Some (k, v @ [CHR 0x0A])" using p by (intro strtok_token) auto
  moreover have "strtok (CHR 0x0A) (v @ [CHR 0x0A]) = Some (v, [])" using p by (intro strtok_token) auto
  ultimately show ?thesis by (simp add: load_entry_def print_entry_def e l)
qed

lemma fgets_line:
  assumes "CHR 0x0A \<notin> set l" "length l + 1 < n"
  shows "fgets n (l @ CHR 0x0A # r) = (l @ [CHR 0x0A], r)"
proof -
  have "take (n - 1) (l @ CHR 0x0A # r) = l @ CHR 0x0A # take (n - 1 - length l - 1) r"
    using assms(2) by (simp add: take_Cons')
  moreover have "takeWhile (\<lambda>c. c \<noteq> CHR 0x0A) (l @ CHR 0x0A # x) = l" for x
    using assms(1) by (intro takeWhile_append_stop) auto
  ultimately show ?thesis by (simp add: fgets_def Let_def)
qed

text \<open>The effect of one entry, and of a file that consists of printed entries.\<close>

definition load_one :: "'w backend \<Rightarrow> bool \<Rightarrow> string \<times> string \<Rightarrow> 'w \<Rightarrow> 'w" where
  "load_one B force e w =
     (case e of (key, val) \<Rightarrow>
        (let (known, w) = (if force then (False, w)
                           else case kvdb_get B w (Some (mem_of key)) (length key + 1) False 0 of
                                  ((r, _), w) \<Rightarrow> (0 \<le> r, w))
         in if known then w
            else snd (kvdb_set B w (Some (mem_of key)) (length key + 1) (Some (mem_of val)) (length val + 1) True)))"

lemma cstring_subset: "set s \<subseteq> set t \<Longrightarrow> cstring t \<Longrightarrow> cstring s"
  by (auto simp: cstring_def)

lemma strtok_set: "strtok d s = Some (t, r) \<Longrightarrow> set t \<subseteq> set s \<and> set r \<subseteq> set s"
  by (auto simp: strtok_def Let_def split: if_splits
      dest!: set_takeWhileD set_dropWhileD in_set_dropD)

lemma strtok_length: "strtok d s = Some (t, r) \<Longrightarrow> length t \<le> length s"
  by (auto simp: strtok_def Let_def split: if_splits)
     (metis length_dropWhile_le length_takeWhile_le order_trans)

lemma load_entry_cstring:
  assumes "load_entry line = Some (k, v)"
  shows "cstring k \<and> cstring v \<and> length k \<le> length line"
proof -
  from assms obtain tmp r where s: "strtok (CHR ''='') (cstr line) = Some (k, tmp)" "strtok (CHR 0x0A) tmp = Some (v, r)"
    by (auto simp: load_entry_def split: if_splits option.splits)
  from strtok_set [OF s(1)] strtok_set [OF s(2)] strtok_length [OF s(1)] show ?thesis
    using cstring_cstr [of line] length_takeWhile_le [of _ line]
    by (auto simp: cstring_def cstr_def intro: order_trans)
qed

lemma load_line_entry:
  "load_line B force w line = (case load_entry line of None \<Rightarrow> w | Some e \<Rightarrow> load_one B force e w)"
  using load_entry_cstring [of line]
  by (auto simp: load_line_def load_one_def Let_def split: option.splits prod.splits)

theorem load_lines_print:
  "\<forall>e \<in> set es. plain_entry e \<Longrightarrow>
   load_lines B force w (concat (map print_entry es)) = fold (load_one B force) es w"
proof (induction es arbitrary: w)
  case Nil
  then show ?case by (simp add: load_lines.simps)
next
  case (Cons e es)
  obtain k v where e: "e = (k, v)" by (cases e)
  let ?l = "k @ ''='' @ v" and ?r = "concat (map print_entry es)"
  have "plain_entry e" using Cons.prems by simp
  then have "CHR 0x0A \<notin> set ?l" "length ?l + 1 < PROP_MSG_MAX" by (auto simp: plain_entry_def e)
  from fgets_line [OF this, of ?r]
  have f: "fgets PROP_MSG_MAX (print_entry e @ ?r) = (print_entry e, ?r)" by (simp add: print_entry_def e)
  have "print_entry e \<noteq> []" by (simp add: print_entry_def e)
  with f load_entry_print [OF \<open>plain_entry e\<close>]
  have "load_lines B force w (print_entry e @ ?r) = load_lines B force (load_one B force e w) ?r"
    by (subst load_lines.simps) (simp add: load_line_entry)
  with Cons show ?case by simp
qed

section \<open>The wait is bounded\<close>

lemma load_wait_bound:
  "same_mons s (snd (load_wait s path retry)) \<and> kvdb (snd (load_wait s path retry)) = kvdb s \<and>
   sys (snd (load_wait s path retry)) = sys s \<and> clock s \<le> clock (snd (load_wait s path retry)) \<and>
   int (clock (snd (load_wait s path retry))) + max 0 (fst (load_wait s path retry)) \<le> int (clock s) + max 0 retry"
proof (induction s path retry rule: load_wait.induct)
  case (1 s path retry)
  show ?case
  proof (cases "accessible s path \<noteq> None \<or> \<not> 0 < retry")
    case True
    then have "load_wait s path retry = (if accessible s path \<noteq> None then retry else retry - 1, s)"
      by (subst load_wait.simps) auto
    then show ?thesis by (simp add: max_def)
  next
    case False
    then have eq: "load_wait s path retry = load_wait (s\<lparr>clock := clock s + 1\<rparr>) path (retry - 1)"
      by (subst load_wait.simps) auto
    from False 1 show ?thesis unfolding eq by (auto simp: same_mons_def)
  qed
qed

lemma load_file_state:
  "same_mons s (load_file B force s path) \<and> clock (load_file B force s path) = clock s"
  using syscall_eq [of s] by (auto simp: load_file_def same_mons_def split: prod.splits sysres.splits option.splits)

theorem load_paths_bound:
  "same_mons s (load_paths B force s src retry) \<and> clock s \<le> clock (load_paths B force s src retry) \<and>
   int (clock (load_paths B force s src retry)) \<le> int (clock s) + max 0 retry"
proof (induction B force s src retry rule: load_paths.induct)
  case (1 B force s src retry)
  obtain path rest where n: "next_path src = (path, rest)" by (metis prod.exhaust)
  obtain retry' s1 where w: "load_wait s path retry = (retry', s1)" by (metis prod.exhaust)
  let ?s2 = "load_file B force s1 path"
  note wb = load_wait_bound [of s path retry, unfolded w fst_conv snd_conv]
  note fs = load_file_state [of s1 B force path]
  show ?case
  proof (cases "src = []")
    case False
    then have eq: "load_paths B force s src retry = load_paths B force ?s2 rest retry'"
      using n w by (subst load_paths.simps) simp
    from 1 [OF False n [symmetric] refl w [symmetric]] wb fs show ?thesis
      unfolding eq using same_mons_trans by (metis (no_types, lifting) add_le_cancel_right order_trans)
  qed (simp add: load_paths.simps)
qed

section \<open>A whole load\<close>

text \<open>
  A file that appears within twenty milliseconds and consists of printed entries: the load waits for it,
  handles every entry in order, and commits.
\<close>

lemma load_wait_reaches:
  assumes "map_of (srcs s) path = Some (t, content)"
  shows "t \<le> clock s + n \<Longrightarrow>
    load_wait s path (int n) = (int n - int (t - clock s), s\<lparr>clock := max (clock s) t\<rparr>)"
  using assms
proof (induction n arbitrary: s)
  case 0
  then show ?case by (subst load_wait.simps) (simp add: accessible_def max_def)
next
  case (Suc n)
  show ?case
  proof (cases "t \<le> clock s")
    case True
    with Suc.prems show ?thesis by (subst load_wait.simps) (simp add: accessible_def max_def)
  next
    case False
    with Suc.IH [of "s\<lparr>clock := clock s + 1\<rparr>"] Suc.prems show ?thesis
      by (subst load_wait.simps) (simp add: accessible_def max_def)
  qed
qed

lemma kvdb_load_printed:
  assumes "sys s = []" "map_of (srcs s) path = Some (t, concat (map print_entry es))" "t \<le> clock s + 20"
    and "path \<noteq> []" "CHR '';'' \<notin> set path" "\<forall>e \<in> set es. plain_entry e"
  shows "kvdb_load B s path force =
    (0, s\<lparr>clock := max (clock s) t, kvdb := snd (kvdb_commit B (fold (load_one B force) es (kvdb s)))\<rparr>)"
proof -
  let ?s = "s\<lparr>clock := max (clock s) t\<rparr>"
  have w: "load_wait s path 20 = (20 - int (t - clock s), ?s)"
    using load_wait_reaches [OF assms(2), of 20] assms(3) by simp
  have "load_file B force ?s path = ?s\<lparr>kvdb := fold (load_one B force) es (kvdb s)\<rparr>"
    using assms(1,2,6) by (simp add: load_file_def accessible_def load_lines_print)
  with w assms(4,5) have "load_paths B force s path 20 = ?s\<lparr>kvdb := fold (load_one B force) es (kvdb s)\<rparr>"
    by (subst load_paths.simps) (simp add: next_path_def load_paths.simps)
  with assms(1) show ?thesis by (simp add: kvdb_load_def)
qed

text \<open>When the existence test finds nothing, loading with and without force is the same.\<close>

lemma load_force_irrelevant:
  assumes "\<And>e w. load_one B False e w = load_one B True e w"
  shows "kvdb_load B s src False = kvdb_load B s src True"
proof -
  have ll: "load_lines B False w content = load_lines B True w content" for w content
  proof (induction content arbitrary: w rule: length_induct)
    case (1 content)
    show ?case
    proof (cases "content = []")
      case False
      then have "length (snd (fgets PROP_MSG_MAX content)) < length content"
        by (simp add: fgets_progress kvdb_consts)
      with 1 False show ?thesis
        by (subst (1 2) load_lines.simps) (auto simp: load_line_entry assms split: prod.splits option.splits)
    qed (simp add: load_lines.simps)
  qed
  have lf: "load_file B False s path = load_file B True s path" for s path
    by (auto simp: load_file_def ll split: prod.splits sysres.splits option.splits)
  have "load_paths B False s src retry = load_paths B True s src retry" for s retry
  proof (induction src arbitrary: s retry rule: length_induct)
    case (1 src)
    show ?case
    proof (cases "src = []")
      case False
      then have "length (snd (next_path src)) < length src"
        by (auto simp: next_path_def Let_def)
      with 1 False show ?thesis
        by (subst (1 2) load_paths.simps) (auto simp: lf split: prod.splits)
    qed (simp add: load_paths.simps)
  qed
  then show ?thesis by (auto simp: kvdb_load_def Let_def split: prod.splits sysres.splits)
qed

section \<open>Loading into a backend\<close>

text \<open>
  What every entry and the final commit keep, a whole load keeps: the entries are C strings, and a key
  is no longer than a line.
\<close>

lemma load_lines_induct:
  assumes "I w" "\<And>k v w. I w \<Longrightarrow> cstring k \<Longrightarrow> cstring v \<Longrightarrow> length k < PROP_MSG_MAX \<Longrightarrow>
      I (load_one B force (k, v) w)"
  shows "I (load_lines B force w content)"
  using assms(1)
proof (induction content arbitrary: w rule: length_induct)
  case (1 content)
  show ?case
  proof (cases "content = []")
    case False
    obtain line rest where f: "fgets PROP_MSG_MAX content = (line, rest)" by (metis prod.exhaust)
    have "length rest < length content"
      using fgets_progress [OF False, of PROP_MSG_MAX] f by (simp add: kvdb_consts)
    moreover have "length line < PROP_MSG_MAX" using fgets_length [of PROP_MSG_MAX content] f
      by (simp add: kvdb_consts)
    then have "I (load_line B force w line)"
      using 1(2) assms(2) load_entry_cstring [of line]
      by (fastforce simp: load_line_entry split: option.splits)
    ultimately show ?thesis using 1(1) False f by (subst load_lines.simps) simp
  qed (use 1(2) in \<open>simp add: load_lines.simps\<close>)
qed

lemma load_paths_induct:
  assumes "I (kvdb s)" "\<And>k v w. I w \<Longrightarrow> cstring k \<Longrightarrow> cstring v \<Longrightarrow> length k < PROP_MSG_MAX \<Longrightarrow>
      I (load_one B force (k, v) w)"
  shows "I (kvdb (load_paths B force s src retry))"
  using assms(1)
proof (induction src arbitrary: s retry rule: length_induct)
  case (1 src)
  obtain path rest where n: "next_path src = (path, rest)" by (metis prod.exhaust)
  obtain retry' s1 where w: "load_wait s path retry = (retry', s1)" by (metis prod.exhaust)
  show ?case
  proof (cases "src = []")
    case False
    with n have "length rest < length src"
      by (auto simp: next_path_def Let_def split: if_splits)
    moreover have "I (kvdb s1)" using load_wait_bound [of s path retry] w 1(2) by simp
    then have "I (kvdb (load_file B force s1 path))"
      using syscall_eq [of s1] load_lines_induct [where I = I, OF _ assms(2)]
      by (auto simp: load_file_def split: prod.splits sysres.splits option.splits)
    ultimately show ?thesis using 1(1) False n w by (subst load_paths.simps) simp
  qed (use 1(2) in \<open>simp add: load_paths.simps\<close>)
qed

lemma kvdb_load_induct:
  assumes "I (kvdb s)" "kvdb_load B s src force = (r, s')"
    and "\<And>k v w. I w \<Longrightarrow> cstring k \<Longrightarrow> cstring v \<Longrightarrow> length k < PROP_MSG_MAX \<Longrightarrow>
      I (load_one B force (k, v) w)"
    and "\<And>w. I w \<Longrightarrow> I (snd (kvdb_commit B w))"
  shows "I (kvdb s')"
proof -
  have "I (snd (kvdb_commit B (kvdb (load_paths B force t src 20))))" if "I (kvdb t)" for t
    by (rule assms(4), rule load_paths_induct [where I = I, OF that]) (rule assms(3))
  with assms(1,2) show ?thesis
    by (auto simp: kvdb_load_def Let_def dest!: syscall_eq split: prod.splits sysres.splits)
qed

context kv_service
begin

lemma set_opened_snd: "opened w \<Longrightarrow> opened (snd (kvdb_set B w (Some key) kl (Some v) n f))"
  using set_opened by (metis surjective_pairing)

lemma load_one_opened: "opened w \<Longrightarrow> opened (load_one B force e w)"
  by (auto simp: load_one_def Let_def set_opened_snd split: prod.splits if_splits dest: get_opened)

lemma kvdb_load_opened:
  assumes "opened (kvdb s)" "kvdb_load B s src force = (r, s')"
  shows "opened (kvdb s')"
  using kvdb_load_induct [where I = opened, OF assms] load_one_opened commit_law
  by (metis surjective_pairing)

text \<open>A forced entry that the backend accepts is in the storage afterwards.\<close>

lemma load_one_forced:
  assumes "opened w" "good_key k" "cstring v" "length v + 1 < PROP_VALUE_MAX"
    and "0 \<le> fst (kvdb_set B w (Some (mem_of k)) (length k + 1) (Some (mem_of v)) (length v + 1) True)"
  shows "view (load_one B True (k, v) w) = (view w)(k \<mapsto> mem_of v)"
proof -
  obtain r w' where s: "kvdb_set B w (Some (k @ NUL # [])) (Suc (length k)) (Some (mem_of v)) (length v + 1) True = (r, w')"
    by (metis prod.exhaust)
  from set_law [OF assms(1,2) _ assms(4) s] s assms(5) show ?thesis
    by (simp add: load_one_def mem_of_def)
qed

end

lemma kvdb_load_same:
  assumes "kvdb_load B s src force = (r, s')"
  shows "same_mons s s' \<and> clock s' \<le> clock s + 20"
proof -
  have "same_mons s (load_paths B force (s\<lparr>sys := rs\<rparr>) src 20)"
    "clock (load_paths B force (s\<lparr>sys := rs\<rparr>) src 20) \<le> clock s + 20" for rs
    using load_paths_bound [of "s\<lparr>sys := rs\<rparr>" B force src 20]
    by (auto intro: same_mons_trans [of s "s\<lparr>sys := rs\<rparr>"])
  then show ?thesis using assms
    by (auto simp: kvdb_load_def Let_def dest!: syscall_eq split: prod.splits sysres.splits)
qed

text \<open>
  A file that is loaded without force keeps what the storage has, when the backend answers the
  existence test.
\<close>

context kv_checked
begin

lemma load_one_keeps:
  assumes w: "opened w \<and> view w k = Some v" and k: "good_key k" "v \<noteq> []"
    and e: "cstring (fst e)" "Suc (length (fst e)) < 2 ^ SIZE_BITS"
  shows "opened (load_one B False e w) \<and> view (load_one B False e w) k = Some v"
proof -
  obtain key val where ev: "e = (key, val)" by (cases e)
  obtain r d w1 where g: "kvdb_get B w (Some (key @ NUL # [])) (Suc (length key)) False 0 = ((r, d), w1)"
    by (metis prod.exhaust)
  from get_opened [OF _ g] w have w1: "opened w1" "view w1 = view w" by auto
  let ?st = "kvdb_set B w1 (Some (key @ NUL # [])) (Suc (length key)) (Some (mem_of val)) (Suc (length val)) True"
  have eq: "load_one B False e w = (if 0 \<le> r then w1 else snd ?st)"
    using g by (simp add: load_one_def ev mem_of_def)
  have "view (snd ?st) k = Some v" if "\<not> 0 \<le> r"
  proof (cases "good_key key")
    case False
    with set_bad e ev w w1 show ?thesis by simp
  next
    case True
    have ne: "key \<noteq> k" using get_exists [OF _ k(1) _ k(2), of w "[]" 0] g w that by auto
    show ?thesis
    proof (cases "Suc (length val) < PROP_VALUE_MAX")
      case True
      from set_frame [OF w1(1) \<open>good_key key\<close> _ True, of "mem_of val" "[]" True "fst ?st" "snd ?st" k] ne w w1
      show ?thesis by (auto simp: mem_of_def)
    next
      case False
      with set_long [of "Suc (length val)" w1 _ _ _ True "fst ?st" "snd ?st"] w w1 show ?thesis by simp
    qed
  qed
  with eq w w1 load_one_opened [of w False e] show ?thesis by auto
qed

lemma kvdb_load_keeps:
  assumes "opened (kvdb s)" "view (kvdb s) k = Some v" "good_key k" "v \<noteq> []"
    and "kvdb_load B s src False = (r, s')"
  shows "view (kvdb s') k = Some v"
proof -
  have "opened (kvdb s') \<and> view (kvdb s') k = Some v"
  proof (rule kvdb_load_induct [where I = "\<lambda>w. opened w \<and> view w k = Some v", OF _ assms(5)])
    show "opened (load_one B False (key, val) w) \<and> view (load_one B False (key, val) w) k = Some v"
      if "opened w \<and> view w k = Some v" "cstring key" "length key < PROP_MSG_MAX" for key val w
      by (rule load_one_keeps) (use that assms in \<open>auto simp: kvdb_consts SIZE_BITS_def\<close>)
    show "opened (snd (kvdb_commit B w)) \<and> view (snd (kvdb_commit B w)) k = Some v"
      if "opened w \<and> view w k = Some v" for w
      using that commit_law by (metis surjective_pairing)
  qed (use assms in simp)
  then show ?thesis ..
qed

end

end
