(* ===== verification/Server.thy ===== *)
theory Server
  imports Loader File_Backend Unqlite_Backend
begin

text \<open>
  The property server, \<open>kvdb/server.c\<close>: the listening sockets, the handling of one client connection
  per command of the protocol, the event loop with its delayed commit, and \<open>main\<close>.
\<close>

section \<open>Listening sockets\<close>

definition KVFD_COUNT :: "config \<Rightarrow> nat" where
  "KVFD_COUNT cfg = (if CONFIG_NET_LOCAL cfg \<and> CONFIG_NET_RPMSG cfg then 2 else 1)"

definition KVFD_MAX :: nat where "KVFD_MAX = 8"

text \<open>
  \<open>kvdb_bind\<close>: the descriptors start as zero; a socket that cannot be created is skipped with a
  negative descriptor; \<open>fds\<close> are the numbers the kernel gives to the sockets.
\<close>

fun bind_loop :: "nat list \<Rightarrow> int list \<Rightarrow> 'w server \<Rightarrow> int \<times> 'w server" where
  "bind_loop [] fds s = (0, s)"
| "bind_loop (i # is) fds s =
     (case syscall s of
        (Fail _, s) \<Rightarrow> bind_loop is fds (s\<lparr>lfd := (lfd s)[i := - 1]\<rparr>)
      | (_, s) \<Rightarrow>
          (let s = s\<lparr>lfd := (lfd s)[i := fds ! i]\<rparr>
           in case syscall s of
                (Fail _, s) \<Rightarrow> (- 1, s)
              | (_, s) \<Rightarrow>
                  (case syscall s of
                     (Fail _, s) \<Rightarrow> (- 1, s)
                   | (_, s) \<Rightarrow> bind_loop is fds s)))"

definition kvdb_bind :: "config \<Rightarrow> int list \<Rightarrow> 'w server \<Rightarrow> int \<times> 'w server" where
  "kvdb_bind cfg fds s =
     bind_loop [0..<KVFD_COUNT cfg] fds (s\<lparr>lfd := replicate (KVFD_COUNT cfg) 0\<rparr>)"

text \<open>The descriptors that \<open>kvdb_unbind\<close> closes.\<close>

definition kvdb_unbind :: "'w server \<Rightarrow> int list" where
  "kvdb_unbind s = filter (\<lambda>fd. 0 < fd) (lfd s)"

section \<open>One client\<close>

function kvdb_recv :: "netev list \<Rightarrow> cmem \<Rightarrow> nat \<Rightarrow> nat \<Rightarrow> int \<times> cmem \<times> netev list" where
  "kvdb_recv rx buf offset len =
     (if offset < len then
        (case recv (len - offset) rx of
           (Inl e, rx) \<Rightarrow> (- 1, buf, rx)
         | (Inr d, rx) \<Rightarrow>
             if d = [] then (- ENODATA, buf, rx)
             else kvdb_recv rx (mem_write buf offset d) (offset + length d) len)
      else (int len, buf, rx))"
  by pat_completeness auto
termination
  by (relation "measure (\<lambda>(rx, buf, offset, len). len - offset)") (auto simp: neq_Nil_conv)

declare kvdb_recv.simps [simp del]

text \<open>
  The cases of the switch of \<open>kvdb_client\<close>. Each gets the message buffer, the number of bytes
  received so far and the rest of the stream, and returns the flag \<open>dirty\<close> with the new state; a
  fault is undefined behaviour of the process. The caller closes the connection.
\<close>

definition client_delete ::
  "'w backend \<Rightarrow> 'w server \<Rightarrow> int \<Rightarrow> cmem \<Rightarrow> nat \<Rightarrow> netev list \<Rightarrow> fault + bool \<times> 'w server" where
  "client_delete B s fd msg len rx =
     (let key_len = ubyte (msg ! 1); end_pos = key_len + 2
      in if PROP_MSG_MAX \<le> end_pos then Inr (False, s)
         else case kvdb_recv rx msg len end_pos of
                (len, msg, rx) \<Rightarrow>
                  if 0 < len then
                    (let key = drop 2 msg
                     in case kvdb_delete B (kvdb s) (Some key) key_len of
                          (err, w) \<Rightarrow>
                            (let s = s\<lparr>kvdb := w\<rparr>
                             in if 0 \<le> err
                                then (case kvdb_monitor_notify s key None 0 of
                                        Inl f \<Rightarrow> Inl f
                                      | Inr s \<Rightarrow> Inr (True, snd (server_send s fd (bytes32 err))))
                                else Inr (False, snd (server_send s fd (bytes32 err)))))
                  else Inr (False, s))"

text \<open>A get whose result is positive sends that many bytes of the local buffer.\<close>

definition client_get ::
  "'w backend \<Rightarrow> 'w server \<Rightarrow> int \<Rightarrow> cmem \<Rightarrow> nat \<Rightarrow> netev list \<Rightarrow> fault + bool \<times> 'w server" where
  "client_get B s fd msg len rx =
     (let key_len = ubyte (msg ! 1); val_len = ubyte (msg ! 2); end_pos = key_len + 3
      in if PROP_MSG_MAX \<le> end_pos then Inr (False, s)
         else case kvdb_recv rx msg len end_pos of
                (len, msg, rx) \<Rightarrow>
                  if 0 < len then
                    (case kvdb_get B (kvdb s) (Some (drop 3 msg)) key_len True val_len of
                       ((len, d), w) \<Rightarrow>
                         (let s = s\<lparr>kvdb := w\<rparr>
                          in if int PROP_VALUE_MAX < len then Inl OutOfBounds
                             else if 0 < len then Inr (False, snd (server_send s fd (take (nat len) d)))
                             else Inr (False, s)))
                  else Inr (False, s))"

definition client_set ::
  "'w backend \<Rightarrow> 'w server \<Rightarrow> int \<Rightarrow> cmem \<Rightarrow> nat \<Rightarrow> netev list \<Rightarrow> fault + bool \<times> 'w server" where
  "client_set B s fd msg len rx =
     (let key_len = ubyte (msg ! 1); val_len = ubyte (msg ! 2); end_pos = key_len + val_len + 3
      in if PROP_MSG_MAX \<le> end_pos then Inr (False, s)
         else case kvdb_recv rx msg len end_pos of
                (len, msg, rx) \<Rightarrow>
                  if 0 < len then
                    (let key = drop 3 msg; val = drop key_len key
                     in case kvdb_set B (kvdb s) (Some key) key_len (Some val) val_len False of
                          (err, w) \<Rightarrow>
                            (let s = s\<lparr>kvdb := w\<rparr>
                             in if 0 \<le> err
                                then (case kvdb_monitor_notify s key (Some val) val_len of
                                        Inl f \<Rightarrow> Inl f
                                      | Inr s \<Rightarrow> Inr (True, snd (server_send s fd (bytes32 err))))
                                else Inr (False, snd (server_send s fd (bytes32 err)))))
                  else Inr (False, s))"

definition kvdb_list_consume :: "int \<Rightarrow> string \<times> string \<Rightarrow> 'w server \<Rightarrow> 'w server" where
  "kvdb_list_consume fd kv s =
     (case kv of (key, val) \<Rightarrow>
        snd (server_send s fd ([byte (strlen (mem_of key) + 1), byte (length val)] @ mem_of key @ val)))"

definition client_list :: "'w backend \<Rightarrow> 'w server \<Rightarrow> int \<Rightarrow> fault + bool \<times> 'w server" where
  "client_list B s fd =
     (case kvdb_list B (kvdb s) True of
        ((r, calls), w) \<Rightarrow>
          Inr (False, snd (server_send (fold (kvdb_list_consume fd) calls (s\<lparr>kvdb := w\<rparr>)) fd [NUL, NUL])))"

definition client_commit :: "'w backend \<Rightarrow> 'w server \<Rightarrow> int \<Rightarrow> fault + bool \<times> 'w server" where
  "client_commit B s fd =
     (case kvdb_commit B (kvdb s) of
        (ret, w) \<Rightarrow> Inr (False, snd (server_send (s\<lparr>kvdb := w\<rparr>) fd (bytes32 ret))))"

definition client_reload :: "config \<Rightarrow> 'w backend \<Rightarrow> 'w server \<Rightarrow> fault + bool \<times> 'w server" where
  "client_reload cfg B s = Inr (False, snd (kvdb_load B s (CONFIG_KVDB_SOURCE_PATH cfg) True))"

text \<open>
  The monitor command keeps the connection open when it gets past its checks. The character
  before the key, for a key length of zero, is the length itself.
\<close>

definition client_monitor ::
  "'w server \<Rightarrow> int \<Rightarrow> cmem \<Rightarrow> nat \<Rightarrow> netev list \<Rightarrow> fault + bool \<times> 'w server" where
  "client_monitor s fd msg len rx =
     (let key_len = ubyte (msg ! 1); end_pos = key_len + 2
      in if PROP_MSG_MAX \<le> end_pos then Inr (False, server_close s fd)
         else case kvdb_recv rx msg len end_pos of
                (len, msg, rx) \<Rightarrow>
                  if len < 0 \<or> msg ! (key_len + 1) \<noteq> NUL then Inr (False, server_close s fd)
                  else if 0 < len then
                    (case kvdb_monitor_open s fd (drop 2 msg) key_len of
                       Inl f \<Rightarrow> Inl f
                     | Inr (err, s) \<Rightarrow> Inr (False, snd (server_send s fd (bytes32 err))))
                  else Inr (False, s))"

text \<open>\<open>out\<close>: the connection is closed.\<close>

definition closing :: "int \<Rightarrow> fault + bool \<times> 'w server \<Rightarrow> fault + bool \<times> 'w server" where
  "closing fd res = (case res of Inl f \<Rightarrow> Inl f | Inr (dirty, s) \<Rightarrow> Inr (dirty, server_close s fd))"

text \<open>
  \<open>junk\<close> is the content of the memory that \<open>malloc\<close> returns for the message buffer.
\<close>

definition kvdb_client ::
  "config \<Rightarrow> 'w backend \<Rightarrow> 'w server \<Rightarrow> int \<Rightarrow> cmem \<Rightarrow> netev list \<Rightarrow> fault + bool \<times> 'w server" where
  "kvdb_client cfg B s fd junk rx =
     (case syscall s of
        (Fail _, s) \<Rightarrow> closing fd (Inr (False, s))
      | (_, s) \<Rightarrow>
          (let msg = mem_write junk 0 [NUL, NUL, NUL]
           in case recv PROP_MSG_MAX rx of
                (Inl e, rx) \<Rightarrow> closing fd (Inr (False, s))
              | (Inr d, rx) \<Rightarrow>
                  if d = [] then closing fd (Inr (False, s))
                  else
                    (let msg = mem_write msg 0 d; len = length d; c = msg ! 0
                     in if c = CHR ''D'' then closing fd (client_delete B s fd msg len rx)
                        else if c = CHR ''G'' then closing fd (client_get B s fd msg len rx)
                        else if c = CHR ''S'' then closing fd (client_set B s fd msg len rx)
                        else if c = CHR ''L'' \<and> CONFIG_KVDB_DUMPLIST cfg then closing fd (client_list B s fd)
                        else if c = CHR ''C'' then closing fd (client_commit B s fd)
                        else if c = CHR ''R'' then closing fd (client_reload cfg B s)
                        else if c = CHR ''M'' then client_monitor s fd msg len rx
                        else closing fd (Inr (False, s)))))"

section \<open>The event loop\<close>

text \<open>
  \<open>int32\<close> is the conversion of a 64-bit time difference to \<open>int\<close>. The head of an iteration: with a
  commit pending, the time left, or the commit when it is due; the result is the timeout in
  milliseconds, \<open>-1\<close> for none.
\<close>

definition int32 :: "int \<Rightarrow> int" where
  "int32 i = sint (word_of_int i :: 32 word)"

definition loop_timer :: "'w backend \<Rightarrow> 'w server \<Rightarrow> int \<Rightarrow> int \<Rightarrow> int \<times> 'w server \<times> int" where
  "loop_timer B s next now =
     (if next \<noteq> 0 then
        (let timeout = int32 (next - now)
         in if timeout \<le> 0 then (- 1, s\<lparr>kvdb := snd (kvdb_commit B (kvdb s))\<rparr>, 0)
            else (timeout * 1000, s, next))
      else (- 1, s, next))"

text \<open>
  One event of \<open>epoll_wait\<close>: the pointer it carries and its flags; for a connection request the
  descriptor that \<open>accept\<close> returns (\<open>None\<close> when it fails), the memory of the message buffer, what
  arrives on the connection, and the clock after the request.
\<close>

record kevent =
  ev_ptr :: evptr
  ev_in :: bool
  ev_hup :: bool
  ev_accept :: "int option"
  ev_junk :: cmem
  ev_rx :: "netev list"
  ev_now :: int

definition loop_event ::
  "config \<Rightarrow> 'w backend \<Rightarrow> 'w server \<times> int \<Rightarrow> kevent \<Rightarrow> fault + 'w server \<times> int" where
  "loop_event cfg B sn ev =
     (case sn of (s, next) \<Rightarrow>
        (case (case ev_ptr ev of PListen i \<Rightarrow> Some (lfd s ! i) | PMon a \<Rightarrow> map_option mon_fd (find_mon s a)) of
           None \<Rightarrow> Inl UseAfterFree
         | Some fd \<Rightarrow>
             if fd \<notin> set (lfd s) then
               (if ev_hup ev
                then (case ev_ptr ev of
                        PMon a \<Rightarrow> (case kvdb_monitor_close s a of Inl f \<Rightarrow> Inl f | Inr s \<Rightarrow> Inr (s, next))
                      | PListen _ \<Rightarrow> Inr (s, next))
                else Inr (s, next))
             else if \<not> ev_in ev then Inr (s, next)
             else case ev_accept ev of
                    None \<Rightarrow> Inr (s, next)
                  | Some newfd \<Rightarrow>
                      (case kvdb_client cfg B (s\<lparr>conns := newfd # conns s\<rparr>) newfd (ev_junk ev) (ev_rx ev) of
                         Inl f \<Rightarrow> Inl f
                       | Inr (dirty, s) \<Rightarrow>
                           if dirty \<and> next = 0
                           then (let next = ev_now ev + CONFIG_KVDB_COMMIT_INTERVAL cfg
                                 in Inr (s, if next = 0 then 1 else next))
                           else Inr (s, next))))"

fun loop_events ::
  "config \<Rightarrow> 'w backend \<Rightarrow> 'w server \<times> int \<Rightarrow> kevent list \<Rightarrow> fault + 'w server \<times> int" where
  "loop_events cfg B sn [] = Inr sn"
| "loop_events cfg B sn (ev # evs) =
     (case loop_event cfg B sn ev of Inl f \<Rightarrow> Inl f | Inr sn \<Rightarrow> loop_events cfg B sn evs)"

text \<open>One iteration of the loop: the clock at its head and the events of \<open>epoll_wait\<close>.\<close>

definition loop_iter ::
  "config \<Rightarrow> 'w backend \<Rightarrow> 'w server \<times> int \<Rightarrow> int \<times> kevent list \<Rightarrow> fault + 'w server \<times> int" where
  "loop_iter cfg B sn it =
     (case (sn, it) of ((s, next), (now, evs)) \<Rightarrow>
        (case loop_timer B s next now of (timeout, s, next) \<Rightarrow> loop_events cfg B (s, next) evs))"

text \<open>
  The registration of the listening sockets, then the iterations. The loop never ends by itself;
  the run is over the iterations observed so far.
\<close>

fun loop_register :: "'w server \<Rightarrow> nat list \<Rightarrow> bool \<times> 'w server" where
  "loop_register s [] = (True, s)"
| "loop_register s (i # is) =
     (if 0 \<le> lfd s ! i then
        (case syscall s of
           (Fail _, s) \<Rightarrow> (False, s)
         | (_, s) \<Rightarrow> loop_register (s\<lparr>watch := (lfd s ! i, PListen i) # watch s\<rparr>) is)
      else loop_register s is)"

fun loop_run ::
  "config \<Rightarrow> 'w backend \<Rightarrow> 'w server \<times> int \<Rightarrow> (int \<times> kevent list) list \<Rightarrow> fault + 'w server \<times> int" where
  "loop_run cfg B sn [] = Inr sn"
| "loop_run cfg B sn (it # its) =
     (case loop_iter cfg B sn it of Inl f \<Rightarrow> Inl f | Inr sn \<Rightarrow> loop_run cfg B sn its)"

definition kvdb_loop ::
  "config \<Rightarrow> 'w backend \<Rightarrow> 'w server \<Rightarrow> (int \<times> kevent list) list \<Rightarrow>
   fault + 'w server + 'w server \<times> int" where
  "kvdb_loop cfg B s its =
     (case syscall s of
        (Fail _, s) \<Rightarrow> Inr (Inl s)
      | (_, s) \<Rightarrow>
          (case loop_register s [0..<length (lfd s)] of
             (False, s) \<Rightarrow> Inr (Inl s)
           | (True, s) \<Rightarrow>
               (case loop_run cfg B (s, 0) its of Inl f \<Rightarrow> Inl f | Inr sn \<Rightarrow> Inr (Inr sn))))"

text \<open>
  \<open>main\<close>: the exit code and the descriptors it closes when the process ends, or the state the loop
  has reached. The descriptors of \<open>kvdb_bind\<close> are closed on every way out.
\<close>

definition server_main ::
  "config \<Rightarrow> 'w backend \<Rightarrow> int list \<Rightarrow> 'w server \<Rightarrow> (int \<times> kevent list) list \<Rightarrow>
   fault + (int \<times> int list \<times> 'w server) + 'w server \<times> int" where
  "server_main cfg B fds s its =
     (case kvdb_bind cfg fds s of
        (ret, s) \<Rightarrow>
          if ret < 0 then Inr (Inl (- ret, kvdb_unbind s, s))
          else (case kvdb_init B (kvdb s) of
                  (ret, w) \<Rightarrow>
                    (let s = s\<lparr>kvdb := w\<rparr>
                     in if ret < 0 then Inr (Inl (- ret, kvdb_unbind s, s))
                        else (let s = snd (kvdb_load B s (CONFIG_KVDB_SOURCE_PATH cfg) False)
                              in case kvdb_loop cfg B s its of
                                   Inl f \<Rightarrow> Inl f
                                 | Inr (Inr sn) \<Rightarrow> Inr (Inr sn)
                                 | Inr (Inl s) \<Rightarrow>
                                     Inr (Inl (- ret, kvdb_unbind s, s\<lparr>kvdb := kvdb_uninit B (kvdb s)\<rparr>))))))"

end
