(* ===== verification/Server_Laws.thy ===== *)
theory Server_Laws
  imports Server
begin

text \<open>
  What holds of the server for every client: the message buffer is never overrun, the state stays
  well formed whatever bytes arrive, requests are understood independently of how the stream is
  cut into segments, and a change of the storage is committed within the configured interval.
\<close>

section \<open>Receiving a message\<close>

lemma kvdb_recv_bounds:
  "kvdb_recv rx buf offset len = (r, buf', rx') \<Longrightarrow> len \<le> length buf \<Longrightarrow>
   length buf' = length buf \<and> take offset buf' = take offset buf \<and> (r = int len \<or> r < 0)"
proof (induction rx buf offset len arbitrary: r buf' rx' rule: kvdb_recv.induct)
  case (1 rx buf offset len)
  show ?case
  proof (cases "offset < len")
    case False
    with "1.prems" show ?thesis by (simp add: kvdb_recv.simps [of rx])
  next
    case True
    obtain res rx1 where r: "recv (len - offset) rx = (res, rx1)" by (metis prod.exhaust)
    show ?thesis
    proof (cases "\<exists>d. res = Inr d \<and> d \<noteq> []")
      case False
      with "1.prems" True r show ?thesis
        by (cases res) (auto simp: kvdb_recv.simps [of rx] errno_defs)
    next
      case d: True
      then obtain d where d: "res = Inr d" "d \<noteq> []" by blast
      let ?b = "mem_write buf offset d"
      have l: "length d \<le> len - offset" using recv_length r d by blast
      with True "1.prems"(2) have b: "length ?b = length buf" by simp
      have t: "take offset ?b = take offset buf"
        using True "1.prems"(2) by (simp add: mem_write_def)
      have "kvdb_recv rx1 ?b (offset + length d) len = (r, buf', rx')"
        using "1.prems"(1) True r d by (simp add: kvdb_recv.simps [of rx])
      from "1.IH" [OF True r [symmetric] d(1) d(2) this] "1.prems"(2) b t
      show ?thesis by (metis le_add1 min.absorb1 take_take)
    qed
  qed
qed

text \<open>However the rest of a message is cut into segments, it is put together.\<close>

lemma kvdb_recv_carries:
  assumes "carries rx (need @ rest)" "length need \<le> length r"
  shows "\<exists>rx'. kvdb_recv rx (got @ r) (length got) (length got + length need) =
      (int (length got + length need), got @ need @ drop (length need) r, rx') \<and> carries rx' rest"
  using assms
proof (induction "length need" arbitrary: rx need got r rule: less_induct)
  case less
  show ?case
  proof (cases "need = []")
    case True
    with less.prems(1) show ?thesis by (simp add: kvdb_recv.simps)
  next
    case False
    obtain e d' rx1 where e: "recv (length need) rx = (Inr e, rx1)" "e \<noteq> []" "length e \<le> length need"
      "need @ rest = e @ d'" "carries rx1 d'"
      using carries_recv [OF less.prems(1)] False by (metis append_is_Nil_conv length_greater_0_conv)
    define need' where "need' = drop (length e) need"
    have "take (length e) (need @ rest) = e" using e(4) by simp
    with e(3) have need1: "need = e @ need'" unfolding need'_def by (metis append_take_drop_id take_append diff_is_0_eq take_0 append_Nil2)
    with e(4) have need: "need = e @ need'" "d' = need' @ rest" by simp_all
    have step: "kvdb_recv rx (got @ r) (length got) (length got + length need) =
        kvdb_recv rx1 ((got @ e) @ drop (length e) r) (length (got @ e)) (length (got @ e) + length need')"
      using False e(1,2) mem_write_prefix [of got r e] by (subst kvdb_recv.simps) (simp add: need(1) add.assoc)
    have "length need' < length need" "length need' \<le> length (drop (length e) r)"
      using e(2) less.prems(2) by (auto simp: need(1))
    from less.hyps [OF this(1) _ this(2), of rx1 "got @ e"] e(5) need(2) step show ?thesis
      by (simp add: need(1) add.assoc add.commute [of "length need'"])
  qed
qed

text \<open>The buffer after the first \<open>recv\<close>: the received bytes over memory that starts with zeros.\<close>

definition first_buffer :: "cmem \<Rightarrow> string \<Rightarrow> cmem" where
  "first_buffer junk d = mem_write (mem_write junk 0 [NUL, NUL, NUL]) 0 d"

lemma length_first_buffer:
  "length junk = PROP_MSG_MAX \<Longrightarrow> length d \<le> PROP_MSG_MAX \<Longrightarrow> length (first_buffer junk d) = PROP_MSG_MAX"
  by (simp add: first_buffer_def kvdb_consts)

section \<open>Every request keeps the state well formed\<close>

text \<open>
  The storage stays usable, the monitors stay consistent, and a request that does not report a
  change (\<open>dirty\<close>) leaves the view alone; \<open>strict\<close> is false for a reload, which commits by itself.
\<close>

definition keeps ::
  "('w \<Rightarrow> bool) \<Rightarrow> ('w \<Rightarrow> string \<Rightarrow> string option) \<Rightarrow> bool \<Rightarrow> int set \<Rightarrow> 'w server \<Rightarrow> bool \<times> 'w server \<Rightarrow> bool" where
  "keeps opened view strict M s res =
     (case res of (dirty, s') \<Rightarrow>
        opened (kvdb s') \<and> mon_inv M s' \<and> lfd s' = lfd s \<and>
        (strict \<and> \<not> dirty \<longrightarrow> view (kvdb s') = view (kvdb s)))"

lemma keeps_close:
  "keeps opened view strict (insert fd M) s (dirty, s') \<Longrightarrow> fd \<notin> M \<Longrightarrow>
   keeps opened view strict M s (dirty, server_close s' fd)"
  using mon_inv_close [of fd M s'] by (auto simp: keeps_def server_close_def)

lemma keeps_send:
  "keeps opened view strict M s (dirty, s1) \<Longrightarrow> keeps opened view strict M s (dirty, snd (server_send s1 fd bs))"
  using server_send_state [of s1 fd bs "fst (server_send s1 fd bs)" "snd (server_send s1 fd bs)" M]
  by (simp add: keeps_def)

lemma keeps_notify:
  "kvdb_monitor_notify s1 key val n = Inr s2 \<Longrightarrow> keeps opened view strict M s (dirty, s1) \<Longrightarrow>
   keeps opened view strict M s (dirty, s2)"
  using kvdb_monitor_notify_inv [of M s1 key val n s2] by (simp add: keeps_def)

context kv_service
begin

lemma client_delete_keeps:
  assumes "opened (kvdb s)" "mon_inv M s" "client_delete B s fd msg len rx = Inr (dirty, s')"
  shows "keeps opened view True M s (dirty, s')"
proof -
  have base: "keeps opened view True M s (False, s)" using assms by (simp add: keeps_def)
  have upd: "keeps opened view True M s (0 \<le> r, s\<lparr>kvdb := w\<rparr>)"
    if "kvdb_delete B (kvdb s) (Some key) kl = (r, w)" for key kl r w
    using delete_opened [OF assms(1) that] assms(2) by (simp add: keeps_def)
  show ?thesis using assms(3) base
    by (auto simp: client_delete_def Let_def split: if_splits prod.splits sum.splits
        intro!: keeps_send dest!: upd intro: keeps_notify)
qed

lemma client_set_keeps:
  assumes "opened (kvdb s)" "mon_inv M s" "client_set B s fd msg len rx = Inr (dirty, s')"
  shows "keeps opened view True M s (dirty, s')"
proof -
  have base: "keeps opened view True M s (False, s)" using assms by (simp add: keeps_def)
  have upd: "keeps opened view True M s (0 \<le> r, s\<lparr>kvdb := w\<rparr>)"
    if "kvdb_set B (kvdb s) (Some key) kl (Some v) n f = (r, w)" for key kl v n f r w
    using set_opened [OF assms(1) that] assms(2) by (simp add: keeps_def)
  show ?thesis using assms(3) base
    by (auto simp: client_set_def Let_def split: if_splits prod.splits sum.splits
        intro!: keeps_send dest!: upd intro: keeps_notify)
qed

lemma client_get_keeps:
  assumes "opened (kvdb s)" "mon_inv M s" "client_get B s fd msg len rx = Inr (dirty, s')"
  shows "keeps opened view True M s (dirty, s')"
proof -
  have base: "keeps opened view True M s (False, s)" using assms by (simp add: keeps_def)
  have upd: "keeps opened view True M s (False, s\<lparr>kvdb := w\<rparr>)"
    if "kvdb_get B (kvdb s) (Some key) kl hb n = ((r, d), w)" for key kl hb n r d w
    using get_opened [OF assms(1) that] assms(2) by (simp add: keeps_def)
  show ?thesis using assms(3) base
    by (auto simp: client_get_def Let_def split: if_splits prod.splits intro!: keeps_send dest!: upd)
qed

lemma client_list_keeps:
  assumes "opened (kvdb s)" "mon_inv M s" "client_list B s fd = Inr (dirty, s')"
  shows "keeps opened view True M s (dirty, s')"
proof -
  obtain r calls w where l: "kvdb_list B (kvdb s) True = ((r, calls), w)" by (metis prod.exhaust)
  have upd: "keeps opened view True M s (False, s\<lparr>kvdb := w\<rparr>)"
    using list_opened [OF assms(1) l] assms(2) by (simp add: keeps_def)
  have "keeps opened view True M s (False, fold (kvdb_list_consume fd) cs t)"
    if "keeps opened view True M s (False, t)" for cs t
    using that
  proof (induction cs arbitrary: t)
    case (Cons c cs)
    then show ?case by (cases c) (simp add: kvdb_list_consume_def keeps_send)
  qed simp
  from this [OF upd] l assms(3) show ?thesis
    by (auto simp: client_list_def intro!: keeps_send)
qed

lemma client_commit_keeps:
  assumes "opened (kvdb s)" "mon_inv M s" "client_commit B s fd = Inr (dirty, s')"
  shows "keeps opened view True M s (dirty, s')"
proof -
  have "keeps opened view True M s (False, s\<lparr>kvdb := w\<rparr>)"
    if "kvdb_commit B (kvdb s) = (r, w)" for r w
    using commit_law [OF assms(1) that] assms(2) by (simp add: keeps_def)
  with assms(3) show ?thesis
    by (auto simp: client_commit_def split: prod.splits intro!: keeps_send)
qed

lemma client_reload_keeps:
  assumes "opened (kvdb s)" "mon_inv M s" "client_reload cfg B s = Inr (dirty, s')"
  shows "keeps opened view False M s (dirty, s')"
proof -
  obtain r t where l: "kvdb_load B s (CONFIG_KVDB_SOURCE_PATH cfg) True = (r, t)" by (metis prod.exhaust)
  from l assms(3) have s': "s' = t" by (simp add: client_reload_def)
  from kvdb_load_same [OF l] have t: "same_mons s t" by simp
  from kvdb_load_opened [OF assms(1) l] same_mons_inv [OF t, of M] assms(2) t show ?thesis
    by (simp add: s' keeps_def same_mons_def)
qed

end

lemma client_monitor_keeps:
  assumes "mon_inv (insert fd L) s" "fd \<notin> L" "fd \<notin> set (lfd s)"
    and "client_monitor s fd msg len rx = Inr (dirty, s')"
  shows "\<not> dirty \<and> kvdb s' = kvdb s \<and> lfd s' = lfd s \<and> (mon_inv L s' \<or> mon_inv (insert fd L) s')"
proof -
  have close: "mon_inv L (server_close s fd)" "kvdb (server_close s fd) = kvdb s" "lfd (server_close s fd) = lfd s"
    using mon_inv_close [OF assms(1,2)] by (simp_all add: server_close_def)
  obtain r m rx1 where rc: "kvdb_recv rx msg len (ubyte (msg ! 1) + 2) = (r, m, rx1)" by (metis prod.exhaust)
  show ?thesis
  proof (cases "kvdb_monitor_open s fd (drop 2 m) (ubyte (msg ! 1))")
    case (Inl f)
    with assms(1,4) rc close show ?thesis
      by (simp add: client_monitor_def Let_def split: if_splits)
  next
    case (Inr rs)
    obtain err s1 where rs: "rs = (err, s1)" by (cases rs)
    let ?t = "snd (server_send s1 fd (bytes32 err))"
    have "kvdb ?t = kvdb s \<and> lfd ?t = lfd s \<and> (mon_inv L ?t \<or> mon_inv (insert fd L) ?t)"
      using kvdb_monitor_open_inv [OF assms(1,3,2) Inr [unfolded rs]]
        server_send_state [of s1 fd "bytes32 err" "fst (server_send s1 fd (bytes32 err))" ?t]
      by (cases "err < 0") simp_all
    with assms(1,4) rc close Inr rs show ?thesis
      by (simp add: client_monitor_def Let_def split: if_splits)
  qed
qed

text \<open>The two ways through \<open>kvdb_client\<close>: there is no message, or its command selects a case.\<close>

definition client_command ::
  "config \<Rightarrow> 'w backend \<Rightarrow> 'w server \<Rightarrow> int \<Rightarrow> cmem \<Rightarrow> nat \<Rightarrow> netev list \<Rightarrow> fault + bool \<times> 'w server" where
  "client_command cfg B s fd msg len rx =
     (let c = msg ! 0 in
      if c = CHR ''D'' then closing fd (client_delete B s fd msg len rx)
      else if c = CHR ''G'' then closing fd (client_get B s fd msg len rx)
      else if c = CHR ''S'' then closing fd (client_set B s fd msg len rx)
      else if c = CHR ''L'' \<and> CONFIG_KVDB_DUMPLIST cfg then closing fd (client_list B s fd)
      else if c = CHR ''C'' then closing fd (client_commit B s fd)
      else if c = CHR ''R'' then closing fd (client_reload cfg B s)
      else if c = CHR ''M'' then client_monitor s fd msg len rx
      else closing fd (Inr (False, s)))"

lemma kvdb_client_cases:
  assumes "syscall s = (r, s1)" "recv PROP_MSG_MAX rx = (res, rx1)"
  shows "kvdb_client cfg B s fd junk rx =
    (case (r, res) of
       (Fail e, _) \<Rightarrow> closing fd (Inr (False, s1))
     | (_, Inl e) \<Rightarrow> closing fd (Inr (False, s1))
     | (_, Inr d) \<Rightarrow>
         if d = [] then closing fd (Inr (False, s1))
         else client_command cfg B s1 fd (first_buffer junk d) (length d) rx1)"
  using assms
  by (simp add: kvdb_client_def client_command_def first_buffer_def Let_def split: sysres.splits sum.splits)

text \<open>
  One connection, whatever arrives on it: it is closed afterwards or it has become a monitor;
  only a monitor request that fails leaves it open.
\<close>

context kv_service
begin

lemma closing_keeps:
  assumes "\<And>dirty s'. res = Inr (dirty, s') \<Longrightarrow> keeps opened view strict (insert fd L) s (dirty, s')"
    and "fd \<notin> L" "closing fd res = Inr (dirty, s')"
  shows "keeps opened view strict L s (dirty, s')"
  using assms keeps_close [of opened view strict fd L s]
  by (auto simp: closing_def split: sum.splits)

lemma client_command_keeps:
  assumes w: "opened (kvdb s)" "mon_inv (insert fd L) s" and fd: "fd \<notin> L" and c: "msg ! 0 \<noteq> CHR ''M''"
    and eq: "client_command cfg B s fd msg len rx = Inr (dirty, s')"
  shows "keeps opened view (msg ! 0 \<noteq> CHR ''R'') L s (dirty, s')"
proof (cases "msg ! 0 = CHR ''R''")
  case True
  with eq have "closing fd (client_reload cfg B s) = Inr (dirty, s')" by (simp add: client_command_def)
  from closing_keeps [OF client_reload_keeps [OF w] fd this] True show ?thesis by simp
next
  case False
  have idle: "closing fd (Inr (False, s)) = Inr (dirty, s') \<Longrightarrow> keeps opened view True L s (dirty, s')"
    by (rule closing_keeps) (use w fd in \<open>auto simp: keeps_def\<close>)
  have del: "closing fd (client_delete B s fd msg len rx) = Inr (dirty, s') \<Longrightarrow> keeps opened view True L s (dirty, s')"
    by (rule closing_keeps [OF client_delete_keeps [OF w] fd])
  have get: "closing fd (client_get B s fd msg len rx) = Inr (dirty, s') \<Longrightarrow> keeps opened view True L s (dirty, s')"
    by (rule closing_keeps [OF client_get_keeps [OF w] fd])
  have set: "closing fd (client_set B s fd msg len rx) = Inr (dirty, s') \<Longrightarrow> keeps opened view True L s (dirty, s')"
    by (rule closing_keeps [OF client_set_keeps [OF w] fd])
  have list: "closing fd (client_list B s fd) = Inr (dirty, s') \<Longrightarrow> keeps opened view True L s (dirty, s')"
    by (rule closing_keeps [OF client_list_keeps [OF w] fd])
  have commit: "closing fd (client_commit B s fd) = Inr (dirty, s') \<Longrightarrow> keeps opened view True L s (dirty, s')"
    by (rule closing_keeps [OF client_commit_keeps [OF w] fd])
  have "keeps opened view True L s (dirty, s')"
    using eq c False unfolding client_command_def Let_def
    by (simp only: if_False split: if_split_asm) (blast intro: idle del get set list commit)+
  with False show ?thesis by simp
qed

lemma kvdb_client_keeps:
  assumes w: "opened (kvdb s)" and inv: "mon_inv (insert fd L) s" "fd \<notin> L" "fd \<notin> set (lfd s)"
    and eq: "kvdb_client cfg B s fd junk rx = Inr (dirty, s')"
  shows "opened (kvdb s') \<and> lfd s' = lfd s \<and> (mon_inv L s' \<or> mon_inv (insert fd L) s') \<and>
    (\<not> dirty \<and> view (kvdb s') \<noteq> view (kvdb s) \<longrightarrow> (\<exists>d rx'. recv PROP_MSG_MAX rx = (Inr (CHR ''R'' # d), rx')))"
proof -
  obtain r s1 where sc: "syscall s = (r, s1)" by (metis prod.exhaust)
  have s1: "opened (kvdb s1)" "mon_inv (insert fd L) s1" "fd \<notin> set (lfd s1)" "lfd s1 = lfd s" "kvdb s1 = kvdb s"
    using syscall_eq [OF sc] w inv by simp_all
  have idle: "closing fd (Inr (False, s1)) = Inr (dirty, s') \<Longrightarrow> keeps opened view True L s1 (dirty, s')"
    by (rule closing_keeps) (use s1 inv(2) in \<open>auto simp: keeps_def\<close>)
  have fin: ?thesis if "keeps opened view True L s1 (dirty, s')"
    using that s1 by (auto simp: keeps_def)
  obtain res rx1 where rc: "recv PROP_MSG_MAX rx = (res, rx1)" by (metis prod.exhaust)
  note eq' = eq [unfolded kvdb_client_cases [OF sc rc]]
  show ?thesis
  proof (cases "(\<forall>e. r \<noteq> Fail e) \<and> res \<in> Inr ` (- {[]})")
    case False
    with eq' have "closing fd (Inr (False, s1)) = Inr (dirty, s')"
      by (auto split: sysres.splits sum.splits if_splits)
    then show ?thesis by (rule fin [OF idle])
  next
    case True
    then obtain x where r: "\<forall>e. r \<noteq> Fail e" and x: "res = Inr x" "x \<noteq> []" by auto
    obtain c d where "x = c # d" using x(2) by (cases x) auto
    with x have res: "res = Inr (c # d)" by simp
    define msg where "msg = first_buffer junk (c # d)"
    have c: "msg ! 0 = c" by (simp add: msg_def first_buffer_def mem_write_def)
    have cmd: "client_command cfg B s1 fd msg (length (c # d)) rx1 = Inr (dirty, s')"
      using eq' r res by (auto simp: msg_def split: sysres.splits)
    show ?thesis
    proof (cases "c = CHR ''M''")
      case False
      with client_command_keeps [OF s1(1,2) inv(2) _ cmd] c have "keeps opened view (c \<noteq> CHR ''R'') L s1 (dirty, s')"
        by simp
      then show ?thesis using s1 rc res by (auto simp: keeps_def)
    next
      case True
      with cmd c have "client_monitor s1 fd msg (length (c # d)) rx1 = Inr (dirty, s')"
        by (simp add: client_command_def)
      from client_monitor_keeps [OF s1(2) inv(2) s1(3) this] s1 show ?thesis by auto
    qed
  qed
qed

end

section \<open>The states the event loop reaches\<close>

text \<open>
  What the kernel guarantees of an event: it is for a listening socket or a monitor of the poll
  set, and a descriptor returned by \<open>accept\<close> is not in use. The steps of the loop are the timer at
  the head of an iteration and the handling of one event.
\<close>

definition valid_event :: "'w server \<Rightarrow> kevent \<Rightarrow> bool" where
  "valid_event s ev \<longleftrightarrow> (\<forall>i. ev_ptr ev = PListen i \<longrightarrow> i < length (lfd s)) \<and>
     length (ev_junk ev) = PROP_MSG_MAX \<and>
     (\<forall>fd. ev_accept ev = Some fd \<longrightarrow> 0 \<le> fd \<and> fd \<notin> set (conns s) \<union> set (lfd s))"

inductive loop_step :: "config \<Rightarrow> 'w backend \<Rightarrow> 'w server \<times> int \<Rightarrow> 'w server \<times> int \<Rightarrow> bool" for cfg B where
  timer: "loop_timer B s next now = (timeout, s', next') \<Longrightarrow> loop_step cfg B (s, next) (s', next')"
| event: "valid_event s ev \<Longrightarrow> loop_event cfg B (s, next) ev = Inr sn \<Longrightarrow> loop_step cfg B (s, next) sn"

inductive loop_reach :: "config \<Rightarrow> 'w backend \<Rightarrow> 'w server \<times> int \<Rightarrow> 'w server \<times> int \<Rightarrow> bool" for cfg B sn where
  start: "loop_reach cfg B sn sn"
| step: "loop_reach cfg B sn sn1 \<Longrightarrow> loop_step cfg B sn1 sn2 \<Longrightarrow> loop_reach cfg B sn sn2"

inductive_cases loop_stepE: "loop_step cfg B (s, next) (s', next')"

definition server_inv :: "('w \<Rightarrow> bool) \<Rightarrow> 'w server \<Rightarrow> bool" where
  "server_inv opened s \<longleftrightarrow> opened (kvdb s) \<and> (\<exists>L. mon_inv L s)"

text \<open>The event handler by the kind of its pointer.\<close>

lemma loop_event_listen:
  "i < length (lfd s) \<Longrightarrow> ev_ptr ev = PListen i \<Longrightarrow>
   loop_event cfg B (s, next) ev =
     (if ev_in ev then
        (case ev_accept ev of
           None \<Rightarrow> Inr (s, next)
         | Some fd \<Rightarrow>
             (case kvdb_client cfg B (s\<lparr>conns := fd # conns s\<rparr>) fd (ev_junk ev) (ev_rx ev) of
                Inl f \<Rightarrow> Inl f
              | Inr (dirty, s) \<Rightarrow>
                  Inr (s, if dirty \<and> next = 0
                          then (let t = ev_now ev + CONFIG_KVDB_COMMIT_INTERVAL cfg in if t = 0 then 1 else t)
                          else next)))
      else Inr (s, next))"
  by (auto simp: loop_event_def Let_def split: option.splits sum.splits)

lemma loop_event_mon:
  assumes "mon_inv L s" "ev_ptr ev = PMon a"
  shows "loop_event cfg B (s, next) ev =
     (case find_mon s a of
        None \<Rightarrow> Inl UseAfterFree
      | Some m \<Rightarrow> Inr (if ev_hup ev then drop_mon s m else s, next))"
proof (cases "find_mon s a")
  case (Some m)
  then have m: "m \<in> set (head s)" "mon_addr m = a" by (auto dest: find_mon_Some)
  with assms(1) have "mon_fd m \<notin> set (lfd s)" by (auto simp: mon_inv_def)
  with assms(2) Some m show ?thesis
    by (simp add: loop_event_def kvdb_monitor_close_def drop_mon_eqs(2) [of s m, unfolded m(2)])
qed (use assms(2) in \<open>simp add: loop_event_def\<close>)

context kv_service
begin

lemma loop_timer_keeps:
  assumes "opened (kvdb s)" "loop_timer B s next now = (timeout, s', next')"
  shows "opened (kvdb s') \<and> view (kvdb s') = view (kvdb s) \<and> mon_inv L s' = mon_inv L s \<and> lfd s' = lfd s"
proof -
  obtain r w where c: "kvdb_commit B (kvdb s) = (r, w)" by (metis prod.exhaust)
  from commit_law [OF assms(1) c] assms c show ?thesis
    by (auto simp: loop_timer_def Let_def split: if_splits)
qed

lemma loop_event_keeps:
  assumes "opened (kvdb s)" "mon_inv L s" "valid_event s ev" "loop_event cfg B (s, next) ev = Inr (s', next')"
  shows "opened (kvdb s') \<and> (\<exists>L'. mon_inv L' s') \<and> lfd s' = lfd s"
proof (cases "ev_ptr ev")
  case (PMon a)
  with assms(4) loop_event_mon [OF assms(2) PMon, of cfg B "next"] show ?thesis
    using assms(1,2) mon_inv_drop [OF assms(2)]
    by (auto split: option.splits if_splits dest!: find_mon_Some)
next
  case (PListen i)
  with assms(3) have i: "i < length (lfd s)" by (simp add: valid_event_def)
  note ev = assms(4) [unfolded loop_event_listen [OF i PListen]]
  show ?thesis
  proof (cases "ev_in ev \<and> ev_accept ev \<noteq> None")
    case False
    with ev assms(1,2) show ?thesis by (auto split: if_splits)
  next
    case True
    then obtain fd where fd: "ev_in ev" "ev_accept ev = Some fd" by blast
    with assms(3) have new: "fd \<notin> set (conns s)" "fd \<notin> set (lfd s)" by (auto simp: valid_event_def)
    let ?s = "s\<lparr>conns := fd # conns s\<rparr>"
    from ev fd obtain dirty where c: "kvdb_client cfg B ?s fd (ev_junk ev) (ev_rx ev) = Inr (dirty, s')"
      by (auto split: sum.splits)
    have L: "fd \<notin> L" using new(1) assms(2) by (auto simp: mon_inv_def)
    have "opened (kvdb ?s)" "fd \<notin> set (lfd ?s)" using assms(1) new by simp_all
    from kvdb_client_keeps [OF this(1) mon_inv_accept [OF assms(2) new(1)] L this(2) c] show ?thesis by auto
  qed
qed

lemma loop_step_inv:
  assumes "loop_step cfg B sn sn'" "server_inv opened (fst sn)"
  shows "server_inv opened (fst sn') \<and> lfd (fst sn') = lfd (fst sn)"
  using assms
proof (cases rule: loop_step.cases)
  case (timer s "next" now timeout s' next')
  with assms(2) loop_timer_keeps [of s "next" now timeout s' next'] show ?thesis
    by (auto simp: server_inv_def)
next
  case (event s ev "next")
  with assms(2) loop_event_keeps [of s _ ev cfg "next" "fst sn'" "snd sn'"] show ?thesis
    by (auto simp: server_inv_def)
qed

text \<open>Every state the loop reaches is well formed.\<close>

lemma loop_reach_inv:
  assumes "loop_reach cfg B sn sn'" "server_inv opened (fst sn)"
  shows "server_inv opened (fst sn') \<and> lfd (fst sn') = lfd (fst sn)"
  using assms by (induction rule: loop_reach.induct) (auto dest: loop_step_inv)

end

text \<open>The functional loop runs inside the reachable states.\<close>

fun events_valid :: "config \<Rightarrow> 'w backend \<Rightarrow> 'w server \<times> int \<Rightarrow> kevent list \<Rightarrow> bool" where
  "events_valid cfg B sn [] \<longleftrightarrow> True"
| "events_valid cfg B sn (ev # evs) \<longleftrightarrow> valid_event (fst sn) ev \<and>
     (case loop_event cfg B sn ev of Inl _ \<Rightarrow> True | Inr sn \<Rightarrow> events_valid cfg B sn evs)"

fun run_valid :: "config \<Rightarrow> 'w backend \<Rightarrow> 'w server \<times> int \<Rightarrow> (int \<times> kevent list) list \<Rightarrow> bool" where
  "run_valid cfg B sn [] \<longleftrightarrow> True"
| "run_valid cfg B (s, next) ((now, evs) # its) \<longleftrightarrow>
     (case loop_timer B s next now of (_, s1, next1) \<Rightarrow> events_valid cfg B (s1, next1) evs) \<and>
     (case loop_iter cfg B (s, next) (now, evs) of Inl _ \<Rightarrow> True | Inr sn \<Rightarrow> run_valid cfg B sn its)"

lemma loop_reach_trans: "loop_reach cfg B b c \<Longrightarrow> loop_reach cfg B a b \<Longrightarrow> loop_reach cfg B a c"
  by (induction rule: loop_reach.induct) (auto intro: loop_reach.intros)

lemma loop_reach_single: "loop_step cfg B a b \<Longrightarrow> loop_reach cfg B a b"
  by (auto intro: loop_reach.intros)

lemma loop_events_reach:
  "events_valid cfg B sn evs \<Longrightarrow> loop_events cfg B sn evs = Inr sn' \<Longrightarrow> loop_reach cfg B sn sn'"
proof (induction evs arbitrary: sn)
  case (Cons ev evs)
  then obtain sn1 where e: "loop_event cfg B sn ev = Inr sn1" "loop_events cfg B sn1 evs = Inr sn'"
    by (auto split: sum.splits)
  have "loop_step cfg B sn sn1"
    using Cons.prems(1) e(1) loop_step.event [of "fst sn" ev cfg B "snd sn" sn1] by simp
  with Cons.IH [OF _ e(2)] Cons.prems(1) e(1) show ?case
    by (auto intro: loop_reach_trans loop_reach_single)
qed (auto intro: loop_reach.start)

theorem loop_run_reach:
  "run_valid cfg B sn its \<Longrightarrow> loop_run cfg B sn its = Inr sn' \<Longrightarrow> loop_reach cfg B sn sn'"
proof (induction cfg B sn its rule: run_valid.induct)
  case (2 cfg B s "next" now evs its)
  obtain t s1 n1 where t: "loop_timer B s next now = (t, s1, n1)" by (metis prod.exhaust)
  from "2.prems" t obtain sn1 where e: "loop_events cfg B (s1, n1) evs = Inr sn1"
      "loop_run cfg B sn1 its = Inr sn'"
    by (auto simp: loop_iter_def split: sum.splits)
  then have it: "loop_iter cfg B (s, next) (now, evs) = Inr sn1" using t by (simp add: loop_iter_def)
  have "loop_reach cfg B (s, next) (s1, n1)" using t by (intro loop_reach_single loop_step.timer)
  moreover have "loop_reach cfg B (s1, n1) sn1" using "2.prems"(1) t e(1) by (auto intro: loop_events_reach)
  moreover have "loop_reach cfg B sn1 sn'"
    using "2.IH" [OF it] "2.prems"(1) e(2) it by simp
  ultimately show ?case by (blast intro: loop_reach_trans)
qed (auto intro: loop_reach.start)

section \<open>From start to loop\<close>

lemma bind_loop_state:
  "bind_loop is fds s = (r, s') \<Longrightarrow>
   kvdb s' = kvdb s \<and> head s' = head s \<and> watch s' = watch s \<and> conns s' = conns s \<and> length (lfd s') = length (lfd s)"
proof (induction "is" arbitrary: s)
  case (Cons i "is")
  obtain r1 s1 where c1: "syscall s = (r1, s1)" by (metis prod.exhaust)
  let ?s1 = "s1\<lparr>lfd := (lfd s1)[i := fds ! i]\<rparr>"
  obtain r2 s2 where c2: "syscall ?s1 = (r2, s2)" by (metis prod.exhaust)
  obtain r3 s3 where c3: "syscall s2 = (r3, s3)" by (metis prod.exhaust)
  note st = syscall_eq [OF c1] syscall_eq [OF c2] syscall_eq [OF c3]
  have "bind_loop is fds (s1\<lparr>lfd := (lfd s1)[i := - 1]\<rparr>) = (r, s') \<or> s' = s2 \<or> s' = s3 \<or> bind_loop is fds s3 = (r, s')"
    using Cons.prems c1 c2 c3 by (cases r1; cases r2; cases r3) (auto simp: Let_def)
  then show ?case
    using Cons.IH [of "s1\<lparr>lfd := (lfd s1)[i := - 1]\<rparr>"] Cons.IH [of s3] st by auto
qed simp

lemma loop_register_watch:
  "loop_register s is = (True, s') \<Longrightarrow>
   kvdb s' = kvdb s \<and> head s' = head s \<and> conns s' = conns s \<and> lfd s' = lfd s \<and>
   set (watch s') = set (watch s) \<union> {(lfd s ! i, PListen i) | i. i \<in> set is \<and> 0 \<le> lfd s ! i}"
proof (induction "is" arbitrary: s)
  case (Cons i "is")
  show ?case
  proof (cases "0 \<le> lfd s ! i")
    case False
    with Cons.IH [of s] Cons.prems show ?thesis by auto
  next
    case True
    obtain r s1 where c: "syscall s = (r, s1)" by (metis prod.exhaust)
    let ?s = "s1\<lparr>watch := (lfd s1 ! i, PListen i) # watch s1\<rparr>"
    have "loop_register ?s is = (True, s')" using Cons.prems True c by (cases r) auto
    from Cons.IH [OF this] syscall_eq [OF c] True show ?thesis by auto
  qed
qed simp

lemma mon_inv_start:
  assumes "head s = []" "watch s = []" "conns s = []" "loop_register s [0..<length (lfd s)] = (True, s')"
  shows "mon_inv {} s'"
  using loop_register_watch [OF assms(4)] assms(1-3) by (auto simp: mon_inv_def listen_watch_def)

text \<open>
  The state in which the loop starts is what \<open>main\<close> has reached before the first iteration; the
  iterations are valid when the kernel keeps its guarantees from that state on.
\<close>

definition main_valid ::
  "config \<Rightarrow> 'w backend \<Rightarrow> int list \<Rightarrow> 'w server \<Rightarrow> (int \<times> kevent list) list \<Rightarrow> bool" where
  "main_valid cfg B fds s its \<longleftrightarrow>
     (case server_main cfg B fds s [] of
        Inr (Inr (s1, _)) \<Rightarrow> run_valid cfg B (s1, 0) its
      | _ \<Rightarrow> True)"

lemma kvdb_loop_start:
  assumes "kvdb_loop cfg B s its = Inr (Inr sn)"
  obtains s0 s1 where "s0 = s\<lparr>sys := snd (sys_next (sys s))\<rparr>"
    "loop_register s0 [0..<length (lfd s0)] = (True, s1)" "loop_run cfg B (s1, 0) its = Inr sn"
    "kvdb_loop cfg B s [] = Inr (Inr (s1, 0))"
proof -
  obtain r s0 where c: "syscall s = (r, s0)" by (metis prod.exhaust)
  obtain b s1 where l: "loop_register s0 [0..<length (lfd s0)] = (b, s1)" by (metis prod.exhaust)
  have "b \<and> loop_run cfg B (s1, 0) its = Inr sn \<and> kvdb_loop cfg B s [] = Inr (Inr (s1, 0))"
    using assms c l by (cases r) (auto simp: kvdb_loop_def split: bool.splits sum.splits)
  with that [of s0 s1] l syscall_eq [OF c] show ?thesis by simp
qed

lemma server_main_start:
  assumes "server_main cfg B fds s its = Inr (Inr sn)"
  obtains r1 sb r2 w r3 sl where "kvdb_bind cfg fds s = (r1, sb)" "kvdb_init B (kvdb sb) = (r2, w)" "0 \<le> r2"
    "kvdb_load B (sb\<lparr>kvdb := w\<rparr>) (CONFIG_KVDB_SOURCE_PATH cfg) False = (r3, sl)"
    "kvdb_loop cfg B sl its = Inr (Inr sn)"
    "\<And>sn'. kvdb_loop cfg B sl [] = Inr (Inr sn') \<Longrightarrow> server_main cfg B fds s [] = Inr (Inr sn')"
proof -
  obtain r1 sb where b: "kvdb_bind cfg fds s = (r1, sb)" by (metis prod.exhaust)
  obtain r2 w where i: "kvdb_init B (kvdb sb) = (r2, w)" by (metis prod.exhaust)
  obtain r3 sl where l: "kvdb_load B (sb\<lparr>kvdb := w\<rparr>) (CONFIG_KVDB_SOURCE_PATH cfg) False = (r3, sl)"
    by (metis prod.exhaust)
  from assms b i l have "\<not> r1 < 0" "\<not> r2 < 0" "kvdb_loop cfg B sl its = Inr (Inr sn)"
    by (auto simp: server_main_def Let_def split: if_splits sum.splits)
  with that [OF b i _ l] b i l show ?thesis by (simp add: server_main_def Let_def)
qed

context kv_service
begin

lemma server_main_inv:
  assumes s: "idle (kvdb s)" "head s = []" "watch s = []" "conns s = []"
    and eq: "server_main cfg B fds s its = Inr (Inr sn)" and valid: "main_valid cfg B fds s its"
  shows "server_inv opened (fst sn)"
proof -
  obtain r1 sb r2 w r3 sl where m: "kvdb_bind cfg fds s = (r1, sb)" "kvdb_init B (kvdb sb) = (r2, w)" "0 \<le> r2"
    "kvdb_load B (sb\<lparr>kvdb := w\<rparr>) (CONFIG_KVDB_SOURCE_PATH cfg) False = (r3, sl)"
    "kvdb_loop cfg B sl its = Inr (Inr sn)"
    "\<And>sn'. kvdb_loop cfg B sl [] = Inr (Inr sn') \<Longrightarrow> server_main cfg B fds s [] = Inr (Inr sn')"
    by (rule server_main_start [OF eq]) blast
  obtain s0 s1 where l: "s0 = sl\<lparr>sys := snd (sys_next (sys sl))\<rparr>"
    "loop_register s0 [0..<length (lfd s0)] = (True, s1)" "loop_run cfg B (s1, 0) its = Inr sn"
    "kvdb_loop cfg B sl [] = Inr (Inr (s1, 0))"
    by (rule kvdb_loop_start [OF m(5)]) blast
  from bind_loop_state [OF m(1) [unfolded kvdb_bind_def]] s
  have sb: "idle (kvdb sb)" "head sb = []" "watch sb = []" "conns sb = []" by auto
  with init_law [OF sb(1) m(2)] m(3) have w: "opened w" by simp
  have sl: "same_mons (sb\<lparr>kvdb := w\<rparr>) sl" "opened (kvdb sl)"
    using kvdb_load_same [OF m(4)] kvdb_load_opened [OF _ m(4)] w by simp_all
  with sb l(1) have s0: "head s0 = []" "watch s0 = []" "conns s0 = []" by (auto simp: same_mons_def)
  have "server_inv opened s1"
    using mon_inv_start [OF s0 l(2)] loop_register_watch [OF l(2)] sl(2) l(1)
    by (auto simp: server_inv_def)
  moreover have "run_valid cfg B (s1, 0) its"
    using valid m(6) [OF l(4)] by (simp add: main_valid_def)
  ultimately show ?thesis using loop_reach_inv [OF loop_run_reach [OF _ l(3)]] by simp
qed

end

end
