(* ===== verification/Server_Safety.thy ===== *)
theory Server_Safety
  imports Server_Laws
begin

text \<open>
  When the server runs into undefined behaviour and when it does not, and the timing of the delayed
  commit. With a backend that checks keys, the only message that makes a handler fault is a monitor
  request with a key length of zero; a batch of events faults only when a request of the batch frees
  a monitor that has an event later in the batch.
\<close>

section \<open>Handlers that do not fault\<close>

lemma strlen_le: "i < length p \<Longrightarrow> p ! i = NUL \<Longrightarrow> strlen p \<le> i"
proof (induction p arbitrary: i)
  case (Cons c p)
  then show ?case by (cases i) (auto simp: strlen_def)
qed simp

lemma notify_fault: "kvdb_monitor_notify s key val n = Inl f \<Longrightarrow> NUL \<notin> set key"
  by (simp add: kvdb_monitor_notify_def split: if_splits)

lemma checked_key:
  assumes "0 < kl" "drop i msg ! (kl - 1) = NUL" "kl + i \<le> length msg"
  shows "NUL \<in> set (drop i msg)"
proof -
  have "kl - 1 < length (drop i msg)" using assms(1,3) by simp
  then show ?thesis using assms(2) nth_mem by metis
qed

text \<open>A monitor request without a key, as the server reads it from the first segment.\<close>

definition zero_monitor :: "string \<Rightarrow> bool" where
  "zero_monitor d \<longleftrightarrow> d = ''M'' \<or> (\<exists>x. d = CHR ''M'' # NUL # x)"

lemma zero_monitor_buffer:
  assumes "3 \<le> length junk" "d \<noteq> []" "first_buffer junk d ! 0 = CHR ''M''" "first_buffer junk d ! 1 = NUL"
  shows "zero_monitor d"
  using assms
  by (cases d rule: remdups_adj.cases)
     (auto simp: first_buffer_def mem_write_def zero_monitor_def nth_append)

context kv_checked
begin

lemma client_delete_safe:
  assumes "length msg = PROP_MSG_MAX"
  shows "\<exists>r. client_delete B s fd msg len rx = Inr r"
proof -
  let ?k = "ubyte (msg ! 1)"
  have k: "?k < 2 ^ SIZE_BITS" "?k < 256" using ubyte_less [of "msg ! 1"] by (auto simp: SIZE_BITS_def)
  obtain r m rx1 where rc: "kvdb_recv rx msg len (?k + 2) = (r, m, rx1)" by (metis prod.exhaust)
  obtain err w where d: "kvdb_delete B (kvdb s) (Some (drop 2 m)) ?k = (err, w)" by (metis prod.exhaust)
  show ?thesis
  proof (cases "client_delete B s fd msg len rx")
    case (Inl f)
    with rc d have f: "0 \<le> err" "\<not> PROP_MSG_MAX \<le> ?k + 2" "NUL \<notin> set (drop 2 m)"
      by (simp_all add: client_delete_def Let_def notify_fault split: if_splits sum.splits)
    have "length m = PROP_MSG_MAX" using kvdb_recv_bounds [OF rc] f(2) assms by simp
    with delete_checked [OF d f(1) k(1)] f(2) have "NUL \<in> set (drop 2 m)"
      by (intro checked_key [of ?k]) auto
    with f(3) show ?thesis by simp
  qed simp
qed

lemma client_set_safe:
  assumes "length msg = PROP_MSG_MAX"
  shows "\<exists>r. client_set B s fd msg len rx = Inr r"
proof -
  let ?k = "ubyte (msg ! 1)" and ?v = "ubyte (msg ! 2)"
  have k: "?k < 2 ^ SIZE_BITS" "?k < 256" using ubyte_less [of "msg ! 1"] by (auto simp: SIZE_BITS_def)
  obtain r m rx1 where rc: "kvdb_recv rx msg len (?k + ?v + 3) = (r, m, rx1)" by (metis prod.exhaust)
  obtain err w where d: "kvdb_set B (kvdb s) (Some (drop 3 m)) ?k (Some (drop ?k (drop 3 m))) ?v False = (err, w)"
    by (metis prod.exhaust)
  show ?thesis
  proof (cases "client_set B s fd msg len rx")
    case (Inl f)
    with rc d have f: "0 \<le> err" "\<not> PROP_MSG_MAX \<le> ?k + ?v + 3" "NUL \<notin> set (drop 3 m)"
      by (simp_all add: client_set_def Let_def notify_fault split: if_splits sum.splits)
    have "length m = PROP_MSG_MAX" using kvdb_recv_bounds [OF rc] f(2) assms by simp
    with set_checked [OF d f(1) k(1)] f(2) have "NUL \<in> set (drop 3 m)"
      by (intro checked_key [of ?k]) auto
    with f(3) show ?thesis by simp
  qed simp
qed

lemma client_get_safe:
  assumes "opened (kvdb s)"
  shows "\<exists>r. client_get B s fd msg len rx = Inr r"
proof -
  let ?k = "ubyte (msg ! 1)" and ?v = "ubyte (msg ! 2)"
  have v: "?v \<le> PROP_VALUE_MAX" using ubyte_less [of "msg ! 2"] by (simp add: kvdb_consts)
  obtain r m rx1 where rc: "kvdb_recv rx msg len (?k + 3) = (r, m, rx1)" by (metis prod.exhaust)
  obtain l d w where g: "kvdb_get B (kvdb s) (Some (drop 3 m)) ?k True ?v = ((l, d), w)" by (metis prod.exhaust)
  have "\<not> int PROP_VALUE_MAX < l"
  proof
    assume "int PROP_VALUE_MAX < l"
    with get_opened [OF assms g] v show False by simp
  qed
  then show ?thesis using rc g by (auto simp: client_get_def Let_def)
qed

lemma client_monitor_safe:
  assumes "length msg = PROP_MSG_MAX" "msg ! 1 \<noteq> NUL"
  shows "\<exists>r. client_monitor s fd msg len rx = Inr r"
proof -
  let ?k = "ubyte (msg ! 1)"
  have k: "0 < ?k" using assms(2) byte_ubyte [of "msg ! 1"] by (metis gr0I ubyte_NUL byte_ubyte)
  obtain r m rx1 where rc: "kvdb_recv rx msg len (?k + 2) = (r, m, rx1)" by (metis prod.exhaust)
  show ?thesis
  proof (cases "client_monitor s fd msg len rx")
    case (Inl f)
    with rc have f: "m ! (?k + 1) = NUL" "\<not> PROP_MSG_MAX \<le> ?k + 2" "kvdb_monitor_open s fd (drop 2 m) ?k = Inl f"
      by (auto simp: client_monitor_def Let_def split: if_splits sum.splits)
    have l: "length m = PROP_MSG_MAX" using kvdb_recv_bounds [OF rc] f(2) assms by simp
    have "strlen (drop 2 m) \<le> ?k - 1" using f k l by (intro strlen_le) auto
    with k have "\<not> ?k < strlen (drop 2 m) + 1" by linarith
    with f(3) show ?thesis
      by (auto simp: kvdb_monitor_open_def Let_def split: prod.splits sysres.splits if_splits)
  qed simp
qed

text \<open>A connection is handled without a fault unless it starts with a monitor request without key.\<close>

lemma closing_fault: "closing fd res = Inl f \<Longrightarrow> res = Inl f"
  by (auto simp: closing_def split: sum.splits)

lemma client_command_safe:
  assumes "opened (kvdb s)" "length msg = PROP_MSG_MAX" "\<not> (msg ! 0 = CHR ''M'' \<and> msg ! 1 = NUL)"
  shows "\<exists>r. client_command cfg B s fd msg len rx = Inr r"
proof (cases "client_command cfg B s fd msg len rx")
  case (Inl f)
  have del: "closing fd (client_delete B s fd msg len rx) \<noteq> Inl f"
    using client_delete_safe [OF assms(2), of s fd len rx] by (auto simp: closing_def)
  have get: "closing fd (client_get B s fd msg len rx) \<noteq> Inl f"
    using client_get_safe [OF assms(1), of fd msg len rx] by (auto simp: closing_def)
  have set: "closing fd (client_set B s fd msg len rx) \<noteq> Inl f"
    using client_set_safe [OF assms(2), of s fd len rx] by (auto simp: closing_def)
  have list: "closing fd (client_list B s fd) \<noteq> Inl f" "closing fd (client_commit B s fd) \<noteq> Inl f"
    "closing fd (client_reload cfg B s) \<noteq> Inl f" "closing fd (Inr (False, s)) \<noteq> Inl f"
    by (auto simp: closing_def client_list_def client_commit_def client_reload_def split: prod.splits)
  have mon: "client_monitor s fd msg len rx \<noteq> Inl f" if "msg ! 0 = CHR ''M''"
    using client_monitor_safe [OF assms(2), of s fd len rx] assms(3) that by auto
  from Inl show ?thesis
    using del get set list mon unfolding client_command_def Let_def
    by (simp only: split: if_split_asm) blast+
qed simp

lemma kvdb_client_safe:
  assumes "opened (kvdb s)" "length junk = PROP_MSG_MAX"
    and "\<And>d. fst (recv PROP_MSG_MAX rx) = Inr d \<Longrightarrow> \<not> zero_monitor d"
  shows "\<exists>r. kvdb_client cfg B s fd junk rx = Inr r"
proof -
  obtain r s1 where sc: "syscall s = (r, s1)" by (metis prod.exhaust)
  obtain res rx1 where rc: "recv PROP_MSG_MAX rx = (res, rx1)" by (metis prod.exhaust)
  have s1: "opened (kvdb s1)" using syscall_eq [OF sc] assms(1) by simp
  have "\<exists>r. client_command cfg B s1 fd (first_buffer junk d) (length d) rx1 = Inr r"
    if d: "res = Inr d" "d \<noteq> []" for d
  proof (rule client_command_safe [OF s1])
    have "length d \<le> PROP_MSG_MAX" using recv_length rc d(1) by blast
    then show "length (first_buffer junk d) = PROP_MSG_MAX" by (rule length_first_buffer [OF assms(2)])
    have "\<not> zero_monitor d" using assms(3) rc d(1) by simp
    then show "\<not> (first_buffer junk d ! 0 = CHR ''M'' \<and> first_buffer junk d ! 1 = NUL)"
      using zero_monitor_buffer [of junk d] assms(2) d(2) by (auto simp: kvdb_consts)
  qed
  then show ?thesis
    unfolding kvdb_client_cases [OF sc rc]
    by (auto simp: closing_def split: sysres.splits sum.splits)
qed

section \<open>Batches of events\<close>

text \<open>
  In a batch whose monitor events come first, each for a monitor of its own that is on the list, and
  whose connections send no monitor request without a key, nothing faults.
\<close>

lemma loop_events_mon_first:
  assumes "mon_inv L s" "distinct (map ev_ptr ms)"
    and "\<And>ev. ev \<in> set ms \<Longrightarrow> \<exists>m \<in> set (head s). ev_ptr ev = PMon (mon_addr m)"
  shows "\<exists>s'. loop_events cfg B (s, next) ms = Inr (s', next) \<and> mon_inv L s' \<and> kvdb s' = kvdb s \<and> lfd s' = lfd s"
  using assms
proof (induction ms arbitrary: s)
  case (Cons ev ms)
  from Cons.prems(3) obtain m where m: "m \<in> set (head s)" "ev_ptr ev = PMon (mon_addr m)" by auto
  then obtain m' where f: "find_mon s (mon_addr m) = Some m'" by (cases "find_mon s (mon_addr m)") (auto simp: find_mon_None)
  with find_mon_Some [OF f] m Cons.prems(1) have "m' = m"
    by (auto simp: mon_inv_def distinct_map dest: inj_onD)
  let ?s = "if ev_hup ev then drop_mon s m else s"
  have e: "loop_event cfg B (s, next) ev = Inr (?s, next)"
    using loop_event_mon [OF Cons.prems(1) m(2), of cfg B "next"] f \<open>m' = m\<close> by simp
  have inv: "mon_inv L ?s" using Cons.prems(1) mon_inv_drop [OF _ m(1)] by simp
  have "\<exists>n \<in> set (head ?s). ev_ptr e' = PMon (mon_addr n)" if "e' \<in> set ms" for e'
  proof -
    from Cons.prems(3) [of e'] that obtain n where n: "n \<in> set (head s)" "ev_ptr e' = PMon (mon_addr n)" by auto
    have "mon_addr n \<noteq> mon_addr m" using Cons.prems(2) that m(2) n(2) by force
    with n show ?thesis by auto
  qed
  from Cons.IH [OF inv _ this] Cons.prems(2) e show ?case by auto
qed auto

lemma loop_events_safe:
  assumes "opened (kvdb s)" "mon_inv L s" "events_valid cfg B (s, next) evs"
    and "\<And>ev. ev \<in> set evs \<Longrightarrow> \<exists>i. ev_ptr ev = PListen i"
    and "\<And>ev d. ev \<in> set evs \<Longrightarrow> fst (recv PROP_MSG_MAX (ev_rx ev)) = Inr d \<Longrightarrow> \<not> zero_monitor d"
  shows "\<exists>sn. loop_events cfg B (s, next) evs = Inr sn"
  using assms
proof (induction evs arbitrary: s "next" L)
  case (Cons ev evs)
  from Cons.prems(4) obtain i where i: "ev_ptr ev = PListen i" by auto
  have v: "valid_event s ev" using Cons.prems(3) by simp
  then have il: "i < length (lfd s)" using i by (simp add: valid_event_def)
  have "\<exists>r. kvdb_client cfg B (s\<lparr>conns := fd # conns s\<rparr>) fd (ev_junk ev) (ev_rx ev) = Inr r" for fd
    using Cons.prems(1,5) v by (intro kvdb_client_safe) (auto simp: valid_event_def)
  then have "\<exists>dirty t. kvdb_client cfg B (s\<lparr>conns := fd # conns s\<rparr>) fd (ev_junk ev) (ev_rx ev) = Inr (dirty, t)" for fd
    by (metis prod.exhaust)
  then have "\<exists>sn. loop_event cfg B (s, next) ev = Inr sn"
    unfolding loop_event_listen [OF il i]
    by (cases "ev_accept ev") (auto, metis (no_types, lifting) old.prod.case sum.case(2))
  then obtain s1 n1 where e: "loop_event cfg B (s, next) ev = Inr (s1, n1)" by auto
  from loop_event_keeps [OF Cons.prems(1,2) v e] obtain L' where s1: "opened (kvdb s1)" "mon_inv L' s1" by auto
  have "\<exists>sn. loop_events cfg B (s1, n1) evs = Inr sn"
    by (rule Cons.IH [OF s1]) (use Cons.prems(3-5) e in auto)
  with e show ?case by simp
qed auto

lemma loop_batch_safe:
  assumes "opened (kvdb s)" "mon_inv L s" "distinct (map ev_ptr ms)"
    and "\<And>ev. ev \<in> set ms \<Longrightarrow> \<exists>m \<in> set (head s). ev_ptr ev = PMon (mon_addr m)"
    and "events_valid cfg B (s, next) (ms @ evs)"
    and "\<And>ev. ev \<in> set evs \<Longrightarrow> \<exists>i. ev_ptr ev = PListen i"
    and "\<And>ev d. ev \<in> set evs \<Longrightarrow> fst (recv PROP_MSG_MAX (ev_rx ev)) = Inr d \<Longrightarrow> \<not> zero_monitor d"
  shows "\<exists>sn. loop_events cfg B (s, next) (ms @ evs) = Inr sn"
proof -
  have app: "loop_events cfg B sn (xs @ ys) =
      (case loop_events cfg B sn xs of Inl f \<Rightarrow> Inl f | Inr sn \<Rightarrow> loop_events cfg B sn ys)" for sn xs ys
    by (induction xs arbitrary: sn) (auto split: sum.splits)
  have vapp: "events_valid cfg B sn (xs @ ys) \<Longrightarrow> loop_events cfg B sn xs = Inr sn1 \<Longrightarrow> events_valid cfg B sn1 ys"
    for sn sn1 xs ys
    by (induction xs arbitrary: sn) (auto split: sum.splits)
  obtain s1 where s1: "loop_events cfg B (s, next) ms = Inr (s1, next)" "mon_inv L s1" "kvdb s1 = kvdb s"
    using loop_events_mon_first [OF assms(2-4)] by blast
  have "\<exists>sn. loop_events cfg B (s1, next) evs = Inr sn"
    by (rule loop_events_safe [OF _ s1(2)]) (use assms(1,6,7) s1 vapp [OF assms(5) s1(1)] in auto)
  with s1(1) show ?thesis by (simp add: app)
qed

end

section \<open>The delayed commit\<close>

text \<open>
  While a commit is pending the head of an iteration either commits or arms a positive timeout, and
  a pending commit that is due is done.
\<close>

lemma int32_range: "- (2 ^ 31) \<le> int32 i" "int32 i < 2 ^ 31"
  using sint_range_size [of "word_of_int i :: 32 word"] by (simp_all add: int32_def word_size)

lemma int32_id: "- (2 ^ 31) \<le> i \<Longrightarrow> i < 2 ^ 31 \<Longrightarrow> int32 i = i"
  unfolding int32_def sint_sbintrunc' by (rule signed_take_bit_int_eq_self) simp_all

lemma loop_timer_pending:
  assumes "next \<noteq> 0" "loop_timer B s next now = (timeout, s', next')"
  shows "next' = 0 \<and> timeout = - 1 \<and> s' = s\<lparr>kvdb := snd (kvdb_commit B (kvdb s))\<rparr> \<or>
    next' = next \<and> s' = s \<and> 0 < timeout \<and> timeout = 1000 * int32 (next - now)"
  using assms by (auto simp: loop_timer_def Let_def split: if_splits)

lemma loop_timer_due:
  assumes "next \<noteq> 0" "next \<le> now" "now - next \<le> 2 ^ 31"
  shows "loop_timer B s next now = (- 1, s\<lparr>kvdb := snd (kvdb_commit B (kvdb s))\<rparr>, 0)"
  using assms by (simp add: loop_timer_def int32_id)

text \<open>An event that changes the storage, other than by a reload, leaves a commit pending.\<close>

context kv_service
begin

lemma loop_event_pending:
  assumes "opened (kvdb s)" "mon_inv L s" "valid_event s ev" "loop_event cfg B (s, next) ev = Inr (s', next')"
    and "view (kvdb s') \<noteq> view (kvdb s)"
    and "\<And>d. fst (recv PROP_MSG_MAX (ev_rx ev)) \<noteq> Inr (CHR ''R'' # d)"
  shows "next' \<noteq> 0 \<and> (next = 0 \<longrightarrow> next' = ev_now ev + CONFIG_KVDB_COMMIT_INTERVAL cfg \<or> next' = 1)"
proof (cases "ev_ptr ev")
  case (PMon a)
  with assms(4,5) loop_event_mon [OF assms(2) PMon, of cfg B "next"] show ?thesis
    by (auto split: option.splits if_splits)
next
  case (PListen i)
  with assms(3) have i: "i < length (lfd s)" by (simp add: valid_event_def)
  note ev = assms(4) [unfolded loop_event_listen [OF i PListen]]
  with assms(5) obtain fd where fd: "ev_in ev" "ev_accept ev = Some fd" by (auto split: if_splits option.splits)
  with assms(3) have new: "fd \<notin> set (conns s)" "fd \<notin> set (lfd s)" by (auto simp: valid_event_def)
  let ?s = "s\<lparr>conns := fd # conns s\<rparr>"
  from ev fd obtain dirty where c: "kvdb_client cfg B ?s fd (ev_junk ev) (ev_rx ev) = Inr (dirty, s')"
    by (auto split: sum.splits)
  have L: "fd \<notin> L" using new(1) assms(2) by (auto simp: mon_inv_def)
  have "opened (kvdb ?s)" "fd \<notin> set (lfd ?s)" using assms(1) new by simp_all
  from kvdb_client_keeps [OF this(1) mon_inv_accept [OF assms(2) new(1)] L this(2) c] assms(5,6)
  have dirty by force
  with ev fd c show ?thesis by (auto simp: Let_def split: if_splits)
qed

end

end
