(* ===== verification/Served.thy ===== *)
theory Served
  imports Client Server_Safety
begin

text \<open>
  The client and the server together: a network whose other end is the event loop of the server. The
  requests the client builds are the ones the server takes apart, for every way the stream is cut
  into segments that keeps the header of a request together, and the store a client sees is the
  storage of the server.
\<close>

section \<open>What the server does with a request\<close>

text \<open>The whole request arrives, the first segment having at least three bytes.\<close>

definition arrives :: "netev list \<Rightarrow> string \<Rightarrow> bool" where
  "arrives rx req \<longleftrightarrow> carries rx req \<and> (case rx of Bytes b # _ \<Rightarrow> 3 \<le> length b | _ \<Rightarrow> False)"

lemma client_message:
  assumes "sys s = []" "length junk = PROP_MSG_MAX" "arrives rx req" "length req \<le> PROP_MSG_MAX"
  obtains m len rx2 tail rx3 where
    "kvdb_client cfg B s fd junk rx = client_command cfg B s fd m len rx2"
    "m ! 0 = req ! 0" "m ! 1 = req ! 1" "m ! 2 = req ! 2"
    "kvdb_recv rx2 m len (length req) = (int (length req), req @ tail, rx3)"
    "length (req @ tail) = PROP_MSG_MAX"
proof -
  from assms(3) obtain b rx1 where b: "rx = Bytes b # rx1" "3 \<le> length b" "carries rx req"
    by (auto simp: arrives_def split: list.splits netev.splits)
  then obtain rest where rest: "req = b @ rest" "carries rx1 rest" by (auto simp: prefix_def)
  define j where "j = drop (length b) (mem_write junk 0 [NUL, NUL, NUL])"
  have lj: "length j = PROP_MSG_MAX - length b"
    using assms(2) by (simp add: j_def kvdb_consts)
  have m: "first_buffer junk b = b @ j" by (simp add: first_buffer_def j_def mem_write_0)
  have rc: "recv PROP_MSG_MAX rx = (Inr b, rx1)" using assms(4) rest(1) by (simp add: b(1))
  have "rest \<noteq> [] \<or> rest = []" "b \<noteq> []" using b(2) by auto
  have sc: "syscall s = (Full, s)" using assms(1) by simp
  have client: "kvdb_client cfg B s fd junk rx = client_command cfg B s fd (b @ j) (length b) rx1"
    using \<open>b \<noteq> []\<close> by (simp add: kvdb_client_cases [OF sc rc] m)
  have "length rest \<le> length j" using assms(4) rest(1) lj by simp
  from kvdb_recv_carries [of rx1 rest "[]" j b] rest(2) this obtain rx3 where
    k: "kvdb_recv rx1 (b @ j) (length b) (length req) = (int (length req), req @ drop (length rest) j, rx3)"
    by (auto simp: rest(1))
  have "(b @ j) ! i = req ! i" if "i < 3" for i using that b(2) by (simp add: rest(1) nth_append)
  then have "(b @ j) ! 0 = req ! 0" "(b @ j) ! 1 = req ! 1" "(b @ j) ! 2 = req ! 2" by simp_all
  from that [OF client this k] lj assms(4) show ?thesis by (simp add: rest(1))
qed

text \<open>The notifications a change of a key causes when no send fails.\<close>

definition note_log :: "'w server \<Rightarrow> string \<Rightarrow> string \<Rightarrow> (int \<times> string) list" where
  "note_log s k v = map (\<lambda>m. (mon_fd m, [byte (length k + 1), byte (length v)] @ k @ NUL # v))
     (filter (\<lambda>m. fnmatch (mon_key m) k) (head s))"

lemma notify_quiet:
  assumes "sys s = []" "cstring k"
  shows "kvdb_monitor_notify s (k @ NUL # v @ tail) (Some (v @ tail)) (length v) = Inr (s\<lparr>sent := sent s @ note_log s k v\<rparr>)"
    "kvdb_monitor_notify s (k @ NUL # tail) None 0 = Inr (s\<lparr>sent := sent s @ note_log s k []\<rparr>)"
  using kvdb_monitor_notify_quiet [OF assms] by (simp_all add: note_log_def)

definition good_name :: "string \<Rightarrow> bool" where
  "good_name k \<longleftrightarrow> cstring k \<and> length k < PROP_NAME_MAX"

lemma name_byte: "good_name k \<Longrightarrow> ubyte (byte (Suc (length k))) = Suc (length k)"
  by (simp add: good_name_def kvdb_consts)

text \<open>A set: the storage, the notifications and the reply.\<close>

theorem server_set:
  assumes s: "sys s = []" "length junk = PROP_MSG_MAX" and k: "good_name k"
    and v: "length v < PROP_VALUE_MAX" and rx: "arrives rx (set_request k v (length v))"
  shows "\<exists>tail. kvdb_client cfg B s fd junk rx =
    (case kvdb_set B (kvdb s) (Some (k @ NUL # v @ tail)) (Suc (length k)) (Some (v @ tail)) (length v) False of
       (err, w) \<Rightarrow> Inr (0 \<le> err, server_close (s\<lparr>kvdb := w,
         sent := sent s @ (if 0 \<le> err then note_log s k v else []) @ [(fd, bytes32 err)]\<rparr>) fd))"
proof -
  let ?req = "set_request k v (length v)"
  have req: "?req = [CHR ''S'', byte (Suc (length k)), byte (length v)] @ k @ NUL # v" "cstring k"
    using k by (simp_all add: set_request_def mem_of_def good_name_def)
  have len: "length ?req = Suc (length k) + length v + 3" "length ?req < PROP_MSG_MAX"
    using k v by (auto simp: req good_name_def kvdb_consts)
  obtain m len rx2 tail rx3 where m:
    "kvdb_client cfg B s fd junk rx = client_command cfg B s fd m len rx2"
    "m ! 0 = ?req ! 0" "m ! 1 = ?req ! 1" "m ! 2 = ?req ! 2"
    "kvdb_recv rx2 m len (length ?req) = (int (length ?req), ?req @ tail, rx3)"
    by (rule client_message [OF s rx less_imp_le [OF len(2)]]) blast
  have b: "ubyte (m ! 1) = Suc (length k)" "ubyte (m ! 2) = length v" "m ! 0 = CHR ''S''"
    using m(2-4) name_byte [OF k] v by (simp_all add: req kvdb_consts)
  define X where "X = ?req @ tail"
  have d: "drop 3 X = k @ NUL # v @ tail" by (simp add: X_def req)
  have rc: "kvdb_recv rx2 m len (Suc (length k) + length v + 3) = (int (Suc (length k) + length v + 3), X, rx3)"
    using m(5) by (simp only: len(1) X_def)
  obtain err w where st: "kvdb_set B (kvdb s) (Some (k @ NUL # v @ tail)) (Suc (length k)) (Some (v @ tail)) (length v) False = (err, w)"
    by (metis prod.exhaust)
  let ?s = "s\<lparr>kvdb := w\<rparr>"
  have q: "sys ?s = []" "note_log ?s k v = note_log s k v" using s by (simp_all add: note_log_def)
  have "client_set B s fd m len rx2 =
      Inr (0 \<le> err, s\<lparr>kvdb := w, sent := sent s @ (if 0 \<le> err then note_log s k v else []) @ [(fd, bytes32 err)]\<rparr>)"
    using len st notify_quiet(1) [OF q(1) req(2), of v tail] s(1) q
    unfolding client_set_def Let_def b rc
    by (simp add: d server_send_quiet del: drop_drop)
  with m(1) b(3) st show ?thesis
    by (intro exI [of _ tail]) (simp add: client_command_def closing_def)
qed

text \<open>A get: the bytes of the value, or nothing.\<close>

theorem server_get:
  assumes s: "sys s = []" "length junk = PROP_MSG_MAX" and k: "good_name k"
    and n: "n \<le> PROP_VALUE_MAX" and rx: "arrives rx (get_request k n)"
  shows "\<exists>tail. kvdb_client cfg B s fd junk rx =
    (case kvdb_get B (kvdb s) (Some (k @ NUL # tail)) (Suc (length k)) True n of
       ((len, d), w) \<Rightarrow>
         if int PROP_VALUE_MAX < len then Inl OutOfBounds
         else Inr (False, server_close (s\<lparr>kvdb := w,
           sent := sent s @ (if 0 < len then [(fd, take (nat len) d)] else [])\<rparr>) fd))"
proof -
  let ?req = "get_request k n"
  have req: "?req = [CHR ''G'', byte (Suc (length k)), byte n] @ k @ [NUL]"
    using k by (simp_all add: get_request_def mem_of_def good_name_def)
  have len: "length ?req = Suc (length k) + 3" "length ?req < PROP_MSG_MAX"
    using k by (auto simp: req good_name_def kvdb_consts)
  obtain m len rx2 tail rx3 where m:
    "kvdb_client cfg B s fd junk rx = client_command cfg B s fd m len rx2"
    "m ! 0 = ?req ! 0" "m ! 1 = ?req ! 1" "m ! 2 = ?req ! 2"
    "kvdb_recv rx2 m len (length ?req) = (int (length ?req), ?req @ tail, rx3)"
    by (rule client_message [OF s rx less_imp_le [OF len(2)]]) blast
  have b: "ubyte (m ! 1) = Suc (length k)" "ubyte (m ! 2) = n" "m ! 0 = CHR ''G''"
    using m(2-4) name_byte [OF k] n by (simp_all add: req kvdb_consts)
  define X where "X = ?req @ tail"
  have d: "drop 3 X = k @ NUL # tail" by (simp add: X_def req)
  have rc: "kvdb_recv rx2 m len (Suc (length k) + 3) = (int (Suc (length k) + 3), X, rx3)"
    using m(5) by (simp only: len(1) X_def)
  obtain l dt w where g: "kvdb_get B (kvdb s) (Some (k @ NUL # tail)) (Suc (length k)) True n = ((l, dt), w)"
    by (metis prod.exhaust)
  have "sent (s\<lparr>kvdb := w\<rparr>) = sent s" by simp
  then have same: "s\<lparr>kvdb := w\<rparr> = s\<lparr>kvdb := w, sent := sent s\<rparr>" by simp
  have "client_get B s fd m len rx2 =
      (if int PROP_VALUE_MAX < l then Inl OutOfBounds
       else Inr (False, s\<lparr>kvdb := w, sent := sent s @ (if 0 < l then [(fd, take (nat l) dt)] else [])\<rparr>))"
    using len g s(1) unfolding client_get_def Let_def b rc
    by (auto simp: d server_send_quiet)
  with m(1) b(3) g show ?thesis
    by (intro exI [of _ tail]) (simp add: client_command_def closing_def)
qed

text \<open>A delete.\<close>

theorem server_delete:
  assumes s: "sys s = []" "length junk = PROP_MSG_MAX" and k: "good_name k"
    and rx: "arrives rx (delete_request k)"
  shows "\<exists>tail. kvdb_client cfg B s fd junk rx =
    (case kvdb_delete B (kvdb s) (Some (k @ NUL # tail)) (Suc (length k)) of
       (err, w) \<Rightarrow> Inr (0 \<le> err, server_close (s\<lparr>kvdb := w,
         sent := sent s @ (if 0 \<le> err then note_log s k [] else []) @ [(fd, bytes32 err)]\<rparr>) fd))"
proof -
  let ?req = "delete_request k"
  have req: "?req = [CHR ''D'', byte (Suc (length k))] @ k @ [NUL]" "cstring k"
    using k by (simp_all add: delete_request_def mem_of_def good_name_def)
  have len: "length ?req = Suc (length k) + 2" "length ?req < PROP_MSG_MAX"
    using k by (auto simp: req good_name_def kvdb_consts)
  obtain m len rx2 tail rx3 where m:
    "kvdb_client cfg B s fd junk rx = client_command cfg B s fd m len rx2"
    "m ! 0 = ?req ! 0" "m ! 1 = ?req ! 1" "m ! 2 = ?req ! 2"
    "kvdb_recv rx2 m len (length ?req) = (int (length ?req), ?req @ tail, rx3)"
    by (rule client_message [OF s rx less_imp_le [OF len(2)]]) blast
  have b: "ubyte (m ! 1) = Suc (length k)" "m ! 0 = CHR ''D''"
    using m(2,3) name_byte [OF k] by (simp_all add: req)
  define X where "X = ?req @ tail"
  have d: "drop 2 X = k @ NUL # tail" by (simp add: X_def req)
  have rc: "kvdb_recv rx2 m len (Suc (length k) + 2) = (int (Suc (length k) + 2), X, rx3)"
    using m(5) by (simp only: len(1) X_def)
  obtain err w where st: "kvdb_delete B (kvdb s) (Some (k @ NUL # tail)) (Suc (length k)) = (err, w)"
    by (metis prod.exhaust)
  let ?s = "s\<lparr>kvdb := w\<rparr>"
  have q: "sys ?s = []" "note_log ?s k [] = note_log s k []" using s by (simp_all add: note_log_def)
  have "client_delete B s fd m len rx2 =
      Inr (0 \<le> err, s\<lparr>kvdb := w, sent := sent s @ (if 0 \<le> err then note_log s k [] else []) @ [(fd, bytes32 err)]\<rparr>)"
    using len st notify_quiet(2) [OF q(1) req(2), of tail] s(1) q
    unfolding client_delete_def Let_def b rc
    by (simp add: d server_send_quiet)
  with m(1) b(2) st show ?thesis
    by (intro exI [of _ tail]) (simp add: client_command_def closing_def)
qed

text \<open>A monitor request makes the connection a monitor of its pattern.\<close>

theorem server_monitor:
  assumes s: "sys s = []" "length junk = PROP_MSG_MAX" "fd \<notin> fst ` set (watch s)" and k: "good_name k"
    and rx: "arrives rx (monitor_request k)"
  shows "kvdb_client cfg B s fd junk rx =
    Inr (False, s\<lparr>brk := Suc (brk s), watch := (fd, PMon (brk s)) # watch s,
      head := \<lparr>mon_addr = brk s, mon_fd = fd, mon_key = k\<rparr> # head s,
      sent := sent s @ [(fd, bytes32 0)]\<rparr>)"
proof -
  let ?req = "monitor_request k"
  have req: "?req = [CHR ''M'', byte (Suc (length k))] @ k @ [NUL]" "cstring k"
    using k by (simp_all add: monitor_request_def mem_of_def good_name_def)
  have len: "length ?req = Suc (length k) + 2" "length ?req < PROP_MSG_MAX"
    using k by (auto simp: req good_name_def kvdb_consts)
  obtain m len rx2 tail rx3 where m:
    "kvdb_client cfg B s fd junk rx = client_command cfg B s fd m len rx2"
    "m ! 0 = ?req ! 0" "m ! 1 = ?req ! 1" "m ! 2 = ?req ! 2"
    "kvdb_recv rx2 m len (length ?req) = (int (length ?req), ?req @ tail, rx3)"
    by (rule client_message [OF s(1,2) rx less_imp_le [OF len(2)]]) blast
  have b: "ubyte (m ! 1) = Suc (length k)" "m ! 0 = CHR ''M''"
    using m(2,3) name_byte [OF k] by (simp_all add: req)
  define X where "X = ?req @ tail"
  have d: "drop 2 X = k @ NUL # tail" "X ! (Suc (length k) + 1) = NUL" by (simp_all add: X_def req nth_append)
  have rc: "kvdb_recv rx2 m len (Suc (length k) + 2) = (int (Suc (length k) + 2), X, rx3)"
    using m(5) by (simp only: len(1) X_def)
  have "client_monitor s fd m len rx2 =
    Inr (False, s\<lparr>brk := Suc (brk s), watch := (fd, PMon (brk s)) # watch s,
      head := \<lparr>mon_addr = brk s, mon_fd = fd, mon_key = k\<rparr> # head s, sent := sent s @ [(fd, bytes32 0)]\<rparr>)"
    using len s req(2) d unfolding client_monitor_def Let_def b rc
    by (simp add: kvdb_monitor_open_def server_send_quiet Let_def)
  with m(1) b(2) show ?thesis by (simp add: client_command_def)
qed

text \<open>A list: one message per pair and the terminator.\<close>

definition list_entry :: "string \<times> string \<Rightarrow> string" where
  "list_entry kv = (case kv of (k, v) \<Rightarrow> [byte (strlen (mem_of k) + 1), byte (length v)] @ mem_of k @ v)"

lemma list_consume_quiet:
  "sys s = [] \<Longrightarrow> fold (kvdb_list_consume fd) calls s = s\<lparr>sent := sent s @ map (\<lambda>c. (fd, list_entry c)) calls\<rparr>"
proof (induction calls arbitrary: s)
  case (Cons c calls)
  then show ?case by (cases c) (simp add: kvdb_list_consume_def server_send_quiet list_entry_def)
qed simp

theorem server_list:
  assumes "sys s = []" "length junk = PROP_MSG_MAX" "CONFIG_KVDB_DUMPLIST cfg"
    and "kvdb_list B (kvdb s) True = ((r, calls), w)"
  shows "kvdb_client cfg B s fd junk [Bytes ''L''] =
    Inr (False, server_close (s\<lparr>kvdb := w,
      sent := sent s @ map (\<lambda>c. (fd, list_entry c)) calls @ [(fd, [NUL, NUL])]\<rparr>) fd)"
proof -
  have "recv PROP_MSG_MAX [Bytes ''L''] = (Inr ''L'', [])" by (simp add: kvdb_consts)
  moreover have "syscall s = (Full, s)" using assms(1) by simp
  moreover have "first_buffer junk ''L'' ! 0 = CHR ''L''" by (simp add: first_buffer_def mem_write_0)
  ultimately show ?thesis
    using assms(1,3,4)
    by (simp add: kvdb_client_cases client_command_def client_list_def closing_def list_consume_quiet
        server_send_quiet)
qed

section \<open>A network with the server at its other end\<close>

text \<open>
  The state is that of the event loop: the server with the time of its next commit. A request that
  was sent becomes an event of the first listening socket; \<open>seg\<close> is how the stream is cut into
  segments, \<open>junk\<close> the memory of the message buffer, \<open>now\<close> the clock. What the server sends on the
  new connection is what the client receives. A server that dies resets the connection.
\<close>

definition fresh_fd :: "'w server \<Rightarrow> int" where
  "fresh_fd s = foldr max (conns s @ lfd s) 0 + 1"

definition served_event :: "int \<Rightarrow> cmem \<Rightarrow> int \<Rightarrow> netev list \<Rightarrow> kevent" where
  "served_event fd junk now rx =
     \<lparr>ev_ptr = PListen 0, ev_in = True, ev_hup = False, ev_accept = Some fd, ev_junk = junk,
      ev_rx = rx, ev_now = now\<rparr>"

definition replies :: "int \<Rightarrow> 'w server \<Rightarrow> 'w server \<Rightarrow> netev list" where
  "replies fd s s' =
     map (\<lambda>(f, b). Bytes b) (filter (\<lambda>(f, b). f = fd) (drop (length (sent s)) (sent s')))"

definition served_send ::
  "config \<Rightarrow> 'w backend \<Rightarrow> cmem \<Rightarrow> int \<Rightarrow> (string \<Rightarrow> netev list) \<Rightarrow> 'w server \<times> int \<Rightarrow> string \<Rightarrow>
   (int \<times> netev list) \<times> 'w server \<times> int" where
  "served_send cfg B junk now seg n req =
     (let fd = fresh_fd (fst n)
      in case loop_event cfg B n (served_event fd junk now (seg req)) of
           Inl f \<Rightarrow> ((- ECONNRESET, []), n)
         | Inr n' \<Rightarrow> ((int (length req), replies fd (fst n) (fst n')), n'))"

definition served_net ::
  "config \<Rightarrow> 'w backend \<Rightarrow> cmem \<Rightarrow> int \<Rightarrow> (string \<Rightarrow> netev list) \<Rightarrow> ('w server \<times> int) net" where
  "served_net cfg B junk now seg =
     \<lparr>n_socket = \<lambda>n. (3, n), n_connect = \<lambda>n. (0, n), n_send = served_send cfg B junk now seg,
      n_malloc = \<lambda>n. True, n_errno = \<lambda>n. 0\<rparr>"

text \<open>The server is in a well-formed state with a listening socket and no system call fails.\<close>

definition served_ok :: "('w \<Rightarrow> bool) \<Rightarrow> 'w server \<times> int \<Rightarrow> bool" where
  "served_ok opened n \<longleftrightarrow> opened (kvdb (fst n)) \<and> (\<exists>L. mon_inv L (fst n)) \<and> sys (fst n) = [] \<and> lfd (fst n) \<noteq> []"

text \<open>Segments that keep the header of a request together.\<close>

definition good_seg :: "(string \<Rightarrow> netev list) \<Rightarrow> bool" where
  "good_seg seg \<longleftrightarrow> (\<forall>req. 3 \<le> length req \<longrightarrow> arrives (seg req) req)"

lemma foldr_max_ge: "x \<in> set xs \<Longrightarrow> x \<le> foldr max xs (a :: int)"
  by (induction xs) (auto simp: max_def)

lemma fresh_fd_new: "fresh_fd s \<notin> set (conns s) \<union> set (lfd s)"
proof
  assume "fresh_fd s \<in> set (conns s) \<union> set (lfd s)"
  then have "fresh_fd s \<le> foldr max (conns s @ lfd s) 0" by (intro foldr_max_ge) auto
  then show False by (simp add: fresh_fd_def)
qed

lemma connect_served [simp]: "property_connect (served_net cfg B junk now seg) n = Some (3, n)"
  by (simp add: property_connect_def served_net_def connect_loop.simps)

text \<open>The event of a request, by what \<open>kvdb_client\<close> does with it.\<close>

lemma served_loop_event:
  assumes "lfd s \<noteq> []" "kvdb_client cfg B (s\<lparr>conns := fd # conns s\<rparr>) fd junk rx = Inr (dirty, s')"
  shows "\<exists>next'. loop_event cfg B (s, next) (served_event fd junk now rx) = Inr (s', next')"
proof -
  have "0 < length (lfd s)" "ev_ptr (served_event fd junk now rx) = PListen 0"
    using assms(1) by (simp_all add: served_event_def)
  from loop_event_listen [OF this, of cfg B "next"] assms(2) show ?thesis
    by (simp add: served_event_def)
qed

lemma replies_single:
  assumes "\<And>e. e \<in> set l \<Longrightarrow> fst e \<noteq> fd" "sent s' = sent s @ l @ map (Pair fd) bs"
  shows "replies fd s s' = map Bytes bs"
proof -
  have "filter (\<lambda>(f, b). f = fd) l = []" using assms(1) by (force simp: filter_empty_conv)
  moreover have "filter (\<lambda>(f, b). f = fd) (map (Pair fd) bs) = map (Pair fd) bs" by (induction bs) auto
  ultimately show ?thesis by (simp add: replies_def assms(2) o_def)
qed

lemma note_log_fd: "mon_inv L s \<Longrightarrow> fd \<notin> set (conns s) \<Longrightarrow> e \<in> set (note_log s k v) \<Longrightarrow> fst e \<noteq> fd"
  by (auto simp: note_log_def mon_inv_def)

lemma note_log_conns [simp]: "note_log (s\<lparr>conns := c\<rparr>) k v = note_log s k v"
  by (simp add: note_log_def)

text \<open>Closing the connection leaves the monitors as before the request.\<close>

lemma served_closed:
  assumes "mon_inv L s" "fd \<notin> set (conns s)"
  shows "mon_inv L (server_close (s\<lparr>conns := fd # conns s, kvdb := w, sent := l\<rparr>) fd)"
proof -
  have "fd \<notin> L" using assms by (auto simp: mon_inv_def)
  from mon_inv_close [OF _ this, of "s\<lparr>conns := fd # conns s, kvdb := w, sent := l\<rparr>"] mon_inv_accept [OF assms]
  show ?thesis by simp
qed

lemma served_ok_closed:
  assumes "served_ok opened (s, next)" "opened w" "fd \<notin> set (conns s)"
  shows "served_ok opened (server_close (s\<lparr>conns := fd # conns s, kvdb := w, sent := l\<rparr>) fd, next')"
proof -
  from assms(1) obtain L where L: "mon_inv L s" "sys s = []" "lfd s \<noteq> []" by (auto simp: served_ok_def)
  have "mon_inv L (server_close (s\<lparr>conns := fd # conns s, kvdb := w, sent := l\<rparr>) fd)"
    by (rule served_closed [OF L(1) assms(3)])
  with L assms(2) show ?thesis unfolding served_ok_def fst_conv by (auto simp: server_close_def)
qed

lemma served_send_eq:
  assumes "lfd s \<noteq> []" "fd = fresh_fd s"
    and "kvdb_client cfg B (s\<lparr>conns := fd # conns s\<rparr>) fd junk (seg req) = Inr (dirty, s')"
  shows "\<exists>next'. served_send cfg B junk now seg (s, next) req = ((int (length req), replies fd s s'), s', next')"
  using served_loop_event [OF assms(1,3), of "next" now] assms(2) by (auto simp: served_send_def)

lemma served_fresh:
  assumes "served_ok opened (s, next)"
  shows "fresh_fd s \<notin> set (conns s)" "e \<in> set (note_log s k v) \<Longrightarrow> fst e \<noteq> fresh_fd s"
proof -
  show fd: "fresh_fd s \<notin> set (conns s)" using fresh_fd_new [of s] by simp
  from assms obtain L where "mon_inv L s" by (auto simp: served_ok_def)
  from note_log_fd [OF this fd] show "e \<in> set (note_log s k v) \<Longrightarrow> fst e \<noteq> fresh_fd s" by blast
qed

text \<open>
  What the monitors hear of a list of changes between two states: on the channel of each, the messages of
  the changes whose key its pattern matches, in order, and nothing else.
\<close>

definition note_bytes :: "string \<times> string \<Rightarrow> string" where
  "note_bytes kv = (case kv of (k, v) \<Rightarrow> [byte (length k + 1), byte (length v)] @ k @ NUL # v)"

definition told :: "'w server \<Rightarrow> 'w server \<Rightarrow> (string \<times> string) list \<Rightarrow> bool" where
  "told s s' cs \<longleftrightarrow> head s' = head s \<and>
     (\<exists>t. sent s' = sent s @ t \<and> (\<forall>m \<in> set (head s). filter (\<lambda>e. fst e = mon_fd m) t =
        map (\<lambda>c. (mon_fd m, note_bytes c)) (filter (\<lambda>c. fnmatch (mon_key m) (fst c)) cs)))"

lemma told_head: "told s s' cs \<Longrightarrow> head s' = head s"
  by (simp add: told_def)

lemma told_refl: "told s s []"
  by (simp add: told_def)

lemma told_trans:
  assumes "told s s1 cs" "told s1 s2 ds"
  shows "told s s2 (cs @ ds)"
proof -
  from assms(1) obtain t where t: "head s1 = head s" "sent s1 = sent s @ t" "\<forall>m \<in> set (head s). filter (\<lambda>e. fst e = mon_fd m) t =
      map (\<lambda>c. (mon_fd m, note_bytes c)) (filter (\<lambda>c. fnmatch (mon_key m) (fst c)) cs)" by (auto simp: told_def)
  from assms(2) obtain u where u: "head s2 = head s" "sent s2 = sent s1 @ u" "\<forall>m \<in> set (head s). filter (\<lambda>e. fst e = mon_fd m) u =
      map (\<lambda>c. (mon_fd m, note_bytes c)) (filter (\<lambda>c. fnmatch (mon_key m) (fst c)) ds)" using t(1) by (auto simp: told_def)
  from t u show ?thesis unfolding told_def by (intro conjI exI [of _ "t @ u"]) simp_all
qed

lemma told_replies:
  assumes "told s s' cs" "m \<in> set (head s)"
  shows "replies (mon_fd m) s s' = map (\<lambda>c. Bytes (note_bytes c)) (filter (\<lambda>c. fnmatch (mon_key m) (fst c)) cs)"
proof -
  from assms obtain t where t: "sent s' = sent s @ t" "filter (\<lambda>e. fst e = mon_fd m) t =
      map (\<lambda>c. (mon_fd m, note_bytes c)) (filter (\<lambda>c. fnmatch (mon_key m) (fst c)) cs)"
    by (auto simp: told_def)
  have "replies (mon_fd m) s s' = map (\<lambda>e. Bytes (snd e)) (filter (\<lambda>e. fst e = mon_fd m) t)"
    by (simp add: replies_def t(1) split_def)
  then show ?thesis by (simp add: t(2))
qed

lemma told_notes:
  assumes inv: "mon_inv L s" "fd \<notin> set (conns s)" and head: "head s' = head s"
    and sent: "sent s' = sent s @ (if b then note_log s k v else []) @ map (Pair fd) bs"
  shows "told s s' (if b then [(k, v)] else [])"
proof -
  have "filter (\<lambda>e. fst e = mon_fd m) (note_log s k v) =
      (if fnmatch (mon_key m) k then [(mon_fd m, note_bytes (k, v))] else [])" if m: "m \<in> set (head s)" for m
  proof -
    have "filter (\<lambda>x. mon_fd x = mon_fd m) (head s) = [m]"
      using inv(1) m distinct_filter_single [of mon_fd "head s" m] by (simp add: mon_inv_def)
    then have "filter (\<lambda>x. mon_fd x = mon_fd m \<and> fnmatch (mon_key x) k) (head s) =
        (if fnmatch (mon_key m) k then [m] else [])"
      by (simp only: filter_filter [symmetric]) simp
    then show ?thesis by (simp add: note_log_def note_bytes_def filter_map o_def conj_commute)
  qed
  moreover have "fd \<noteq> mon_fd m" if "m \<in> set (head s)" for m using inv that by (auto simp: mon_inv_def)
  then have "filter (\<lambda>e. fst e = mon_fd m) (map (Pair fd) bs) = []" if "m \<in> set (head s)" for m
    using that by (auto simp: filter_empty_conv)
  ultimately show ?thesis unfolding told_def using head sent by (auto intro!: exI simp: fst_def)
qed

text \<open>
  A request that the server answers with \<open>bs\<close> on the new connection, after messages \<open>l\<close> to others, and then
  closes: the sender receives \<open>bs\<close>, and the server is ready for the next request.
\<close>

lemma served_request:
  assumes ok: "served_ok opened (s, next)" and fd: "fd = fresh_fd s"
    and step: "kvdb_client cfg B (s\<lparr>conns := fd # conns s\<rparr>) fd junk (seg req) =
      Inr (dirty, server_close (s\<lparr>conns := fd # conns s, kvdb := w, sent := sent s @ l @ map (Pair fd) bs\<rparr>) fd)"
    and l: "l = (if b then note_log s k v else [])" and w: "opened w"
  shows "\<exists>s' next'. served_send cfg B junk now seg (s, next) req = ((int (length req), map Bytes bs), s', next') \<and>
    kvdb s' = w \<and> told s s' (if b then [(k, v)] else []) \<and> served_ok opened (s', next')"
proof -
  define s' where
    "s' = server_close (s\<lparr>conns := fd # conns s, kvdb := w, sent := sent s @ l @ map (Pair fd) bs\<rparr>) fd"
  from step have "kvdb_client cfg B (s\<lparr>conns := fd # conns s\<rparr>) fd junk (seg req) = Inr (dirty, s')"
    by (simp add: s'_def)
  from served_send_eq [where seg = seg and req = req, OF _ fd this, of now "next"] ok obtain next' where
    snd: "served_send cfg B junk now seg (s, next) req = ((int (length req), replies fd s s'), s', next')"
    by (auto simp: served_ok_def)
  from ok obtain L where L: "mon_inv L s" by (auto simp: served_ok_def)
  have "fst e \<noteq> fd" if "e \<in> set l" for e
    using that served_fresh(2) [OF ok, of e] by (auto simp: l fd split: if_splits)
  then have "replies fd s s' = map Bytes bs"
    by (rule replies_single) (simp_all add: s'_def server_close_def)
  moreover have "served_ok opened (s', next')"
    unfolding s'_def fd by (rule served_ok_closed [OF ok w served_fresh(1) [OF ok]])
  moreover have "kvdb s' = w" by (simp add: s'_def server_close_def)
  moreover have "told s s' (if b then [(k, v)] else [])"
    by (rule told_notes [OF L, of fd _ _ _ _ bs]) (use served_fresh(1) [OF ok] fd in \<open>simp_all add: s'_def server_close_def l\<close>)
  ultimately show ?thesis using snd by auto
qed

lemma recv_err_bytes32: "is_int32 e \<Longrightarrow> recv_err [Bytes (bytes32 e)] = e"
  by (simp add: recv_err_def int32_of_bytes32 is_int32_def)

context kv_service
begin

lemma good_key_name: "good_key k \<Longrightarrow> good_name k"
  using good_key_wf by (simp add: good_name_def)

lemma served_set:
  assumes ok: "served_ok opened (s, next)" and k: "good_key k" and n: "0 < n" "n < PROP_VALUE_MAX" "n \<le> length v"
    and env: "length junk = PROP_MSG_MAX" "good_seg seg"
    and eq: "client_set_binary (served_net cfg B junk now seg) (s, next) (Some k) v n oneway = res"
  shows "\<exists>err w tail s' next'. res = Some (if oneway then int (length (set_request k v n)) else err, s', next') \<and>
    kvdb_set B (kvdb s) (Some (k @ NUL # take n v @ tail)) (Suc (length k)) (Some (take n v @ tail)) n False = (err, w) \<and>
    kvdb s' = w \<and> told s s' (if 0 \<le> err then [(k, take n v)] else []) \<and> served_ok opened (s', next')"
proof -
  define fd where "fd = fresh_fd s"
  let ?s = "s\<lparr>conns := fd # conns s\<rparr>" and ?V = "take n v"
  have V: "length ?V = n" "set_request k v n = set_request k ?V (length ?V)"
    using n(3) by (simp_all add: set_request_def min.absorb2)
  have s: "opened (kvdb s)" "sys ?s = []" "length ?V < PROP_VALUE_MAX"
    using ok n(2) V(1) by (simp_all add: served_ok_def)
  have "arrives (seg (set_request k v n)) (set_request k ?V (length ?V))"
    using env(2) V(2) by (simp add: good_seg_def set_request_def)
  from server_set [OF s(2) env(1) good_key_name [OF k] s(3) this, of cfg B fd]
  obtain tail err w where
    st: "kvdb_set B (kvdb s) (Some (k @ NUL # ?V @ tail)) (Suc (length k)) (Some (?V @ tail)) n False = (err, w)"
    and c: "kvdb_client cfg B ?s fd junk (seg (set_request k v n)) = Inr (0 \<le> err, server_close (s\<lparr>conns := fd # conns s,
      kvdb := w, sent := sent s @ (if 0 \<le> err then note_log s k ?V else []) @ map (Pair fd) [bytes32 err]\<rparr>) fd)"
    unfolding V(1) by (auto simp: split_beta cong: if_cong intro: prod.collapse [symmetric])
  note law = set_opened [OF s(1) st]
  from served_request [where seg = seg and now = now, OF ok fd_def c refl] law obtain s' next' where
    snd: "served_send cfg B junk now seg (s, next) (set_request k v n) =
      ((int (length (set_request k v n)), [Bytes (bytes32 err)]), s', next')"
    and s': "kvdb s' = w" "told s s' (if 0 \<le> err then [(k, ?V)] else [])" "served_ok opened (s', next')" by auto
  have "strlen (mem_of k) + 1 \<le> PROP_NAME_MAX" using good_key_wf [OF k] by simp
  with eq n snd law have "res = Some (if oneway then int (length (set_request k v n)) else err, s', next')"
    by (auto simp: client_set_binary_def client_set_again.simps served_net_def)
       (auto simp: property_connect_def connect_loop.simps recv_err_bytes32)
  with st s' show ?thesis by blast
qed

lemma served_get:
  assumes ok: "served_ok opened (s, next)" and k: "good_key k" and n: "n \<le> PROP_VALUE_MAX"
    and env: "length junk = PROP_MSG_MAX" "good_seg seg"
    and eq: "client_get_binary (served_net cfg B junk now seg) (s, next) (Some k) True n = res"
  shows "\<exists>len d w tail s' next'. res = Some ((if 0 < len then len else 0, if 0 < len then d else []), s', next') \<and>
    kvdb_get B (kvdb s) (Some (k @ NUL # tail)) (Suc (length k)) True n = ((len, d), w) \<and>
    kvdb s' = w \<and> told s s' [] \<and> served_ok opened (s', next')"
proof -
  define fd where "fd = fresh_fd s"
  let ?s = "s\<lparr>conns := fd # conns s\<rparr>" and ?req = "get_request k n"
  have s: "opened (kvdb s)" "sys ?s = []" using ok by (simp_all add: served_ok_def)
  have "arrives (seg ?req) ?req" using env(2) by (simp add: good_seg_def get_request_def)
  from server_get [OF s(2) env(1) good_key_name [OF k] n this, of cfg B fd]
  obtain tail where c: "kvdb_client cfg B ?s fd junk (seg ?req) =
    (case kvdb_get B (kvdb ?s) (Some (k @ NUL # tail)) (Suc (length k)) True n of
       ((len, d), w) \<Rightarrow>
         if int PROP_VALUE_MAX < len then Inl OutOfBounds
         else Inr (False, server_close (?s\<lparr>kvdb := w,
           sent := sent ?s @ (if 0 < len then [(fd, take (nat len) d)] else [])\<rparr>) fd))" ..
  obtain len d w where g: "kvdb_get B (kvdb s) (Some (k @ NUL # tail)) (Suc (length k)) True n = ((len, d), w)"
    by (metis prod.exhaust)
  note law = get_opened [OF s(1) g]
  have len: "\<not> int PROP_VALUE_MAX < len" "0 < len \<Longrightarrow> take (nat len) d = d \<and> len = int (length d) \<and> length d \<le> n"
    using law n by auto
  have c': "kvdb_client cfg B ?s fd junk (seg ?req) = Inr (False, server_close (s\<lparr>conns := fd # conns s, kvdb := w,
      sent := sent s @ [] @ map (Pair fd) (if 0 < len then [d] else [])\<rparr>) fd)"
    using c g len by simp
  from served_request [where seg = seg and now = now and b = False, OF ok fd_def c'] law obtain s' next' where
    snd: "served_send cfg B junk now seg (s, next) ?req =
      ((int (length ?req), map Bytes (if 0 < len then [d] else [])), s', next')"
    and s': "kvdb s' = w" "told s s' []" "served_ok opened (s', next')" by auto
  have "strlen (mem_of k) + 1 \<le> PROP_NAME_MAX" using good_key_wf [OF k] by simp
  with eq snd len(2) have "res = Some ((if 0 < len then len else 0, if 0 < len then d else []), s', next')"
    unfolding client_get_binary_def Let_def connect_served
    by (auto simp: served_net_def)
  with g s' show ?thesis by blast
qed

lemma served_delete:
  assumes ok: "served_ok opened (world p)" and k: "good_key k" "penv p k = None"
    and env: "length junk = PROP_MSG_MAX" "good_seg seg"
    and eq: "client_property_delete (served_net cfg B junk now seg) p (Some k) = res"
  shows "\<exists>err w tail s' next'. res = Some (err, p\<lparr>world := (s', next')\<rparr>) \<and>
    kvdb_delete B (kvdb (fst (world p))) (Some (k @ NUL # tail)) (Suc (length k)) = (err, w) \<and>
    kvdb s' = w \<and> told (fst (world p)) s' (if 0 \<le> err then [(k, [])] else []) \<and> served_ok opened (s', next')"
proof -
  obtain s "next" where wp: "world p = (s, next)" by (cases "world p")
  note ok = ok [unfolded wp]
  define fd where "fd = fresh_fd s"
  let ?s = "s\<lparr>conns := fd # conns s\<rparr>" and ?req = "delete_request k"
  have s: "opened (kvdb s)" "sys ?s = []" using ok by (simp_all add: served_ok_def)
  have "arrives (seg ?req) ?req" using env(2) by (simp add: good_seg_def delete_request_def mem_of_def)
  from server_delete [OF s(2) env(1) good_key_name [OF k(1)] this, of cfg B fd]
  obtain tail err w where
    st: "kvdb_delete B (kvdb s) (Some (k @ NUL # tail)) (Suc (length k)) = (err, w)"
    and c: "kvdb_client cfg B ?s fd junk (seg ?req) = Inr (0 \<le> err, server_close (s\<lparr>conns := fd # conns s,
      kvdb := w, sent := sent s @ (if 0 \<le> err then note_log s k [] else []) @ map (Pair fd) [bytes32 err]\<rparr>) fd)"
    by (auto simp: split_beta cong: if_cong intro: prod.collapse [symmetric])
  note law = delete_opened [OF s(1) st]
  from served_request [where seg = seg and now = now, OF ok fd_def c refl] law obtain s' next' where
    snd: "served_send cfg B junk now seg (s, next) ?req = ((int (length ?req), [Bytes (bytes32 err)]), s', next')"
    and s': "kvdb s' = w" "told s s' (if 0 \<le> err then [(k, [])] else [])" "served_ok opened (s', next')" by auto
  have "strlen (mem_of k) + 1 \<le> PROP_NAME_MAX" using good_key_wf [OF k(1)] by simp
  with eq snd law k(2) have "res = Some (err, p\<lparr>world := (s', next')\<rparr>)"
    unfolding client_property_delete_def Let_def connect_served wp
    by (auto simp: served_net_def recv_err_bytes32)
  moreover have "kvdb (fst (world p)) = kvdb s" "fst (world p) = s" by (simp_all add: wp)
  ultimately show ?thesis using st s' by metis
qed

end

section \<open>The store a client sees\<close>

text \<open>
  Any backend with the contract of a service, behind the server, is a store for the client's accessors:
  a set that reports success has stored its value, a get returns what is stored. The one-way sets are
  not in \<open>sync\<close>: their result is the number of bytes sent.
\<close>

locale kv_server = kv_service +
  fixes cfg :: config and junk :: cmem and now :: int and seg :: "string \<Rightarrow> netev list"
  assumes junk: "length junk = PROP_MSG_MAX" and seg: "good_seg seg"

sublocale kv_server \<subseteq> served: property_store "client_api (served_net cfg B junk now seg) junk"
    "\<lambda>n. view (kvdb (fst n))" "served_ok opened" good_key Not
proof (unfold_locales, goal_cases)
  case (1 n k v)
  then show ?case using view_bound [of "kvdb (fst n)" k v] by (simp add: served_ok_def)
next
  case (2 n k len v oneway r n')
  obtain s "next" where n: "n = (s, next)" by (cases n)
  from served_set [OF 2(1) [unfolded n] 2(2,3,4,5) junk seg refl, where cfg = cfg and now = now and oneway = oneway]
  obtain err w tail s' next' where r: "client_set_binary (served_net cfg B junk now seg) (s, next) (Some k) v len oneway =
      Some (if oneway then int (length (set_request k v len)) else err, s', next')"
    and st: "kvdb_set B (kvdb s) (Some (k @ NUL # take len v @ tail)) (Suc (length k)) (Some (take len v @ tail)) len False = (err, w)"
    and s': "kvdb s' = w" "served_ok opened (s', next')" by blast
  have l: "len \<le> length (take len v @ tail)" using 2(5) by simp
  from set_law [OF _ 2(2) l 2(4) st] 2(1,5,6) r s' n show ?case
    by (auto simp: client_api_def served_ok_def)
next
  case (3 n oneway k len v r n')
  obtain s "next" where n: "n = (s, next)" by (cases n)
  from served_set [OF 3(1) [unfolded n] 3(3,4,5,6) junk seg refl, where cfg = cfg and now = now and oneway = oneway]
  obtain err w tail s' next' where r: "client_set_binary (served_net cfg B junk now seg) (s, next) (Some k) v len oneway =
      Some (if oneway then int (length (set_request k v len)) else err, s', next')"
    and st: "kvdb_set B (kvdb s) (Some (k @ NUL # take len v @ tail)) (Suc (length k)) (Some (take len v @ tail)) len False = (err, w)"
    and s': "kvdb s' = w" "served_ok opened (s', next')" by blast
  have l: "len \<le> length (take len v @ tail)" using 3(6) by simp
  from set_law [OF _ 3(3) l 3(5) st] 3(1,2,6,7) r s' n show ?case
    by (auto simp: client_api_def served_ok_def)
next
  case (4 k len n v oneway)
  with good_key_wf [OF 4(1)] show ?case by (auto simp: client_api_def client_set_binary_def)
next
  case (5 n k r d n')
  obtain s "next" where n: "n = (s, next)" by (cases n)
  from served_get [OF 5(1) [unfolded n] 5(2) order_refl junk seg refl, where cfg = cfg and now = now]
  obtain len dt w tail s' next' where r: "client_get_binary (served_net cfg B junk now seg) (s, next) (Some k) True PROP_VALUE_MAX =
      Some ((if 0 < len then len else 0, if 0 < len then dt else []), s', next')"
    and g: "kvdb_get B (kvdb s) (Some (k @ NUL # tail)) (Suc (length k)) True PROP_VALUE_MAX = ((len, dt), w)"
    and s': "kvdb s' = w" "served_ok opened (s', next')" by blast
  have o: "opened (kvdb s)" using 5(1) n by (simp add: served_ok_def)
  have "take PROP_VALUE_MAX v = v" if "view (kvdb s) k = Some v" for v
    using view_bound [OF o that] by simp
  with get_law [OF o 5(2) g] 5(3) r s' n show ?case
    by (auto simp: client_api_def split: option.splits if_splits)
qed

context kv_server
begin

lemma store:
  "property_store (client_api (served_net cfg B junk now seg) junk) (\<lambda>n. view (kvdb (fst n)))
     (served_ok opened) good_key Not"
  by (rule served.property_store_axioms)

end

text \<open>
  The instance of the model: the file backend, any memory that \<open>malloc\<close> returns, requests that arrive
  in one piece.
\<close>

definition heap_mem :: "(nat \<Rightarrow> char) \<Rightarrow> cmem" where
  "heap_mem f = map f [0..<PROP_MSG_MAX]"

lemma good_seg_single: "good_seg (\<lambda>req. [Bytes req])"
  by (auto simp: good_seg_def arrives_def)

lemma file_served:
  assumes "length junk = PROP_MSG_MAX" "good_seg seg"
  shows "kv_server (file_backend cfg) (file_view cfg) (file_inv cfg) (file_inv cfg) (file_good_key cfg) junk seg"
  by (intro kv_server.intro fs.kv_service_axioms kv_server_axioms.intro assms)

interpretation sf: kv_server "file_backend cfg" "file_view cfg" "file_inv cfg" "file_inv cfg" "file_good_key cfg"
    cfg "heap_mem f" now "\<lambda>req. [Bytes req]" for cfg f now
  by unfold_locales (simp_all add: heap_mem_def good_seg_single)

text \<open>The same for the UnQLite backend, with any engine that keeps its documented behaviour.\<close>

lemma unq_served:
  assumes "unqlite_ok U recs" "unq_paths cfg" "length junk = PROP_MSG_MAX" "good_seg seg"
  shows "kv_server (unq_backend cfg U) (unq_view cfg recs) (unq_idle cfg recs) (unq_opened cfg recs)
    unq_good_key junk seg"
  by (intro kv_server.intro unq_kv_service kv_server_axioms.intro assms)

interpretation su: kv_server "unq_backend default_config alist_engine" "unq_view default_config map_of"
    "unq_idle default_config map_of" "unq_opened default_config map_of" unq_good_key
    default_config "heap_mem f" now "\<lambda>req. [Bytes req]" for f now
  by (intro unq_served alist_engine_ok default_config_paths good_seg_single)
     (simp add: heap_mem_def)

lemmas file_served_store = kv_server.store [OF file_served]

lemmas unq_served_store = kv_server.store [OF unq_served]

section \<open>Streams the client reads\<close>

lemma recv_safe_kvdb_recv:
  "kvdb_recv rx buf offset len = (r, buf', rx') \<Longrightarrow> 0 \<le> r \<Longrightarrow>
   recv_safe errno rx buf offset len = (r, errno, buf', rx')"
proof (induction rx buf offset len rule: kvdb_recv.induct)
  case (1 rx buf offset len)
  show ?case
  proof (cases "offset < len")
    case False
    with "1.prems" show ?thesis by (simp add: kvdb_recv.simps [of rx]) (subst recv_safe.simps, simp)
  next
    case True
    obtain res rx1 where r: "recv (len - offset) rx = (res, rx1)" by (metis prod.exhaust)
    obtain d where d: "res = Inr d" "d \<noteq> []"
      using "1.prems" True r by (cases res) (auto simp: kvdb_recv.simps [of rx] errno_defs split: if_splits)
    then have "kvdb_recv rx1 (mem_write buf offset d) (offset + length d) len = (r, buf', rx')"
      using "1.prems" True r by (simp add: kvdb_recv.simps [of rx])
    from "1.IH" [OF True r [symmetric] d(1) d(2) this "1.prems"(2)] True r d show ?thesis
      by (simp add: recv_safe.simps [of errno rx])
  qed
qed

lemma recv_safe_carries:
  assumes "carries rx (need @ rest)" "length need \<le> length r"
  shows "\<exists>rx'. recv_safe errno rx (got @ r) (length got) (length got + length need) =
      (int (length got + length need), errno, got @ need @ drop (length need) r, rx') \<and> carries rx' rest"
  using kvdb_recv_carries [OF assms, of got] recv_safe_kvdb_recv by fastforce

lemma carries_concat: "[] \<notin> set bss \<Longrightarrow> carries (map Bytes bss) (concat bss)"
  by (induction bss) auto

text \<open>A pair that fits a list message.\<close>

definition list_pair :: "string \<times> string \<Rightarrow> bool" where
  "list_pair kv = (case kv of (k, v) \<Rightarrow> good_name k \<and> length v < PROP_VALUE_MAX)"

theorem client_list_entries:
  assumes "\<forall>c \<in> set calls. list_pair c" "carries rx (concat (map list_entry calls) @ [NUL, NUL] @ rest)"
    and "length msg = PROP_MSG_MAX"
  shows "client_list_loop errno rx msg = (0, calls)"
  using assms
proof (induction calls arbitrary: rx msg)
  case Nil
  have two: "length [NUL, NUL] \<le> length msg" using Nil.prems(3) by (simp add: kvdb_consts)
  have "carries rx ([NUL, NUL] @ rest)" using Nil.prems(2) by simp
  from recv_safe_carries [OF this two, of errno "[]"] obtain rx' where
    "recv_safe errno rx msg 0 2 = (2, errno, [NUL, NUL] @ drop 2 msg, rx')"
    by (auto simp: numeral_2_eq_2)
  then show ?case by (simp add: client_list_loop.simps [of errno rx])
next
  case (Cons c calls)
  obtain k v where c: "c = (k, v)" by (cases c)
  have k: "good_name k" "cstring k" "length k < PROP_NAME_MAX" "length v < PROP_VALUE_MAX"
    using Cons.prems(1) by (auto simp: list_pair_def c good_name_def)
  let ?h = "[byte (Suc (length k)), byte (length v)]" and ?b = "k @ NUL # v"
  let ?rest = "concat (map list_entry calls) @ [NUL, NUL] @ rest"
  have e: "list_entry c = ?h @ ?b" using k(2) by (simp add: list_entry_def c mem_of_def)
  have two: "length ?h \<le> length msg" using Cons.prems(3) by (simp add: kvdb_consts)
  have "carries rx (?h @ (?b @ ?rest))" using Cons.prems(2) by (simp add: e)
  from recv_safe_carries [OF this two, of errno "[]"] obtain rx1 where
    r1: "recv_safe errno rx msg 0 2 = (2, errno, ?h @ drop 2 msg, rx1)" "carries rx1 (?b @ ?rest)"
    by (auto simp: numeral_2_eq_2)
  have "length ?b \<le> length (drop 2 msg)" using k(3,4) Cons.prems(3) by (simp add: kvdb_consts)
  from recv_safe_carries [OF r1(2) this, of errno ?h] obtain rx2 where
    r2: "recv_safe errno rx1 (?h @ drop 2 msg) 2 (Suc (length k) + length v + 2) =
      (int (Suc (length k) + length v + 2), errno, ?h @ ?b @ drop (length ?b) (drop 2 msg), rx2)" "carries rx2 ?rest"
    by (auto simp: add.commute add.left_commute numeral_2_eq_2)
  define X where "X = ?h @ ?b @ drop (length ?b) (drop 2 msg)"
  have X: "length X = PROP_MSG_MAX" "X ! (1 + Suc (length k)) = NUL" "cstr (drop 2 X) = k"
    "take (length v) (drop (2 + Suc (length k)) X) = v"
    using k Cons.prems(3) by (simp_all add: X_def kvdb_consts nth_append)
  have h: "ubyte (byte (Suc (length k))) = Suc (length k)" "ubyte (byte (length v)) = length v"
    "byte (Suc (length k)) \<noteq> NUL"
    using name_byte [OF k(1)] k(3,4) by (auto simp: kvdb_consts byte_eq_NUL)
  have IH: "client_list_loop errno rx2 X = (0, calls)"
    by (rule Cons.IH) (use Cons.prems(1) r2(2) X(1) in auto)
  have lim: "\<not> PROP_NAME_MAX < Suc (length k)" "\<not> PROP_VALUE_MAX \<le> length v" using k by auto
  show ?case
    unfolding client_list_loop.simps [of errno rx msg] r1(1)
    using h lim r2(1) [folded X_def] X IH c by (simp add: Let_def)
qed

text \<open>
  Whatever the other end sends, the loop of \<open>property_list_binary\<close> stays inside its message and only calls
  back with a key and a value within the limits.
\<close>

lemma recv_safe_bounds:
  "recv_safe errno rx buf offset len = (r, e, buf', rx') \<Longrightarrow> len \<le> length buf \<Longrightarrow>
   length buf' = length buf \<and> take offset buf' = take offset buf"
proof (induction errno rx buf offset len arbitrary: r e buf' rx' rule: recv_safe.induct)
  case (1 errno rx buf offset len)
  obtain res rx1 where r: "recv (len - offset) rx = (res, rx1)" by (metis prod.exhaust)
  show ?case
  proof (cases "offset < len \<and> (\<exists>d. res = Inr d \<and> d \<noteq> [])")
    case False
    with "1.prems" r show ?thesis by (cases res) (auto simp: recv_safe.simps [of errno rx] split: if_splits)
  next
    case True
    then obtain d where d: "offset < len" "res = Inr d" "d \<noteq> []" by blast
    let ?b = "mem_write buf offset d"
    have "length d \<le> len - offset" using recv_length r d(2) by blast
    with d(1) "1.prems"(2) have b: "length ?b = length buf" "take offset ?b = take offset buf"
      by (simp, simp add: mem_write_def)
    have "recv_safe errno rx1 ?b (offset + length d) len = (r, e, buf', rx')"
      using "1.prems"(1) r d by (simp add: recv_safe.simps [of errno rx])
    from "1.IH" [OF d(1) r [symmetric] d(2,3) this] "1.prems"(2) b
    show ?thesis by (metis le_add1 min.absorb1 take_take)
  qed
qed

lemma length_cstr_le: "i < length m \<Longrightarrow> m ! i = NUL \<Longrightarrow> length (cstr m) \<le> i"
  by (induction m arbitrary: i) (auto simp: nth_Cons split: nat.splits)

lemma client_list_within:
  "length msg = PROP_MSG_MAX \<Longrightarrow> c \<in> set (snd (client_list_loop errno rx msg)) \<Longrightarrow> list_pair c"
proof (induction "rx_size rx" arbitrary: errno rx msg rule: less_induct)
  case less
  obtain ret e1 m1 rx1 where r1: "recv_safe errno rx msg 0 2 = (ret, e1, m1, rx1)" using prod_cases4 by blast
  let ?k = "ubyte (m1 ! 0)" and ?v = "ubyte (m1 ! 1)"
  obtain ret2 e2 m2 rx2 where r2: "recv_safe e1 rx1 m1 2 (?k + ?v + 2) = (ret2, e2, m2, rx2)"
    using prod_cases4 by blast
  have m1: "length m1 = PROP_MSG_MAX"
    using recv_safe_bounds [OF r1] less.prems(1) by (simp add: kvdb_consts)
  have s1: "rx_size rx1 < rx_size rx" if "0 \<le> ret" using recv_safe_rx_size [OF r1] that by simp
  have s2: "rx_size rx2 \<le> rx_size rx1" using recv_safe_rx_size [OF r2] by simp
  have IH1: "list_pair c" if "\<not> ret < 0" "c \<in> set (snd (client_list_loop e1 rx1 m1))"
    by (rule less.hyps [OF s1 m1 that(2)]) (use that(1) in simp)
  note eq = client_list_loop.simps [of errno rx msg]
  show ?case
  proof (cases "0 \<le> ret \<and> ?k \<le> PROP_NAME_MAX \<and> ?v < PROP_VALUE_MAX")
    case False
    with less.prems(2) show ?thesis unfolding eq r1
      by (auto simp: Let_def dest: IH1 split: if_splits)
  next
    case True
    then have m2: "length m2 = PROP_MSG_MAX" "take 2 m2 = take 2 m1"
      using recv_safe_bounds [OF r2] m1 by (simp_all add: kvdb_consts)
    then have same: "m2 ! 1 = m1 ! 1" using m1 by (metis lessI nth_take numeral_2_eq_2 One_nat_def)
    have IH2: "list_pair c" if "c \<in> set (snd (client_list_loop e2 rx2 m2))"
      by (rule less.hyps [OF le_less_trans [OF s2 s1] m2(1) that]) (use True in simp)
    have new: "list_pair (cstr (drop 2 m2), take ?v (drop (2 + ?k) m2))"
      if "m2 ! (1 + ?k) = NUL" "m1 ! 0 \<noteq> NUL \<or> m1 ! 1 \<noteq> NUL"
    proof -
      have k: "0 < ?k" using that same by (cases "m1 ! 0 = NUL") (auto simp: ubyte_eq_0 simp flip: neq0_conv)
      have "length (cstr (drop 2 m2)) \<le> ?k - 1"
        by (rule length_cstr_le) (use k True m2(1) that in \<open>auto simp: kvdb_consts\<close>)
      with k True show ?thesis by (auto simp: list_pair_def good_name_def)
    qed
    from True less.prems(2) r2 IH2 new show ?thesis unfolding eq r1
      by (auto simp: Let_def split: if_splits prod.splits)
  qed
qed

text \<open>
  So \<open>property_list\<close> of a client terminates every value inside the message: at least \<open>client_list_room\<close> bytes
  lie at the value pointer.
\<close>

definition client_list_room :: nat where
  "client_list_room = PROP_MSG_MAX - (2 + PROP_NAME_MAX)"

lemma client_list_binary_within:
  assumes "client_list_binary N junk n = Some ((r, calls), n')" "length junk = PROP_MSG_MAX" "c \<in> set calls"
  shows "list_pair c"
  using assms client_list_within [OF assms(2), of c]
  by (auto simp: client_list_binary_def split: bind_splits if_splits prod.splits) (metis snd_conv)

theorem client_property_list_safe:
  assumes "client_list_binary N junk (world p) = Some ((r, calls), n')" "length junk = PROP_MSG_MAX"
  shows "property_list (\<lambda>k v. client_list_room) (client_api N junk) p =
    (Inr (r, map (\<lambda>(k, v). (k, cstr (v @ [NUL]))) calls), p\<lparr>world := n'\<rparr>)"
proof (rule property_list_ok)
  show "\<forall>(k, v) \<in> set calls. length v < client_list_room"
    using client_list_binary_within [OF assms]
    by (force simp: list_pair_def client_list_room_def kvdb_consts)
qed (simp add: client_api_def assms(1))

text \<open>
  A notification the server has sent is what \<open>property_monitor_read\<close> returns: the key, the value cut to
  the caller's buffer, and its length. The two length bytes have to arrive together.
\<close>

theorem monitor_read_note:
  assumes "good_name k" "length v < PROP_VALUE_MAX" "length junk = PROP_MSG_MAX"
    and "rx = Bytes b # rx1" "2 \<le> length b" "carries rx ([byte (length k + 1), byte (length v)] @ k @ NUL # v)"
  shows "fst (property_monitor_read True errno junk rx True True n) =
    (int (min n (length v)), k, take n v)"
proof -
  let ?h = "[byte (Suc (length k)), byte (length v)]" and ?b = "k @ NUL # v"
  have k: "cstring k" "length k < PROP_NAME_MAX" using assms(1) by (auto simp: good_name_def)
  from assms(4-6) obtain r where r: "?h @ ?b = b @ r" "carries rx1 r" by (auto simp: prefix_def)
  obtain x y b' where xy: "b = x # y # b'" using assms(5) by (cases b rule: remdups_adj.cases) auto
  with r(1) have b: "take 2 b = ?h" "drop 2 b @ r = ?b" by auto
  obtain rx2 where rc: "recv 2 rx = (Inr ?h, rx2)" and c2: "carries rx2 ?b"
  proof (cases "length b = 2")
    case True
    then have "b = ?h" "r = ?b" using b r by auto
    with True r(2) assms(4) that show ?thesis by simp
  next
    case False
    with assms(4,5) b r(2) have "recv 2 rx = (Inr ?h, Bytes (drop 2 b) # rx1)" by simp
    moreover have "carries (Bytes (drop 2 b) # rx1) ?b" using False assms(5) r(2) by (simp add: b(2) [symmetric])
    ultimately show ?thesis by (rule that)
  qed
  define M where "M = ?h @ drop 2 junk"
  have M: "mem_write junk 0 ?h = M" by (simp add: M_def mem_write_0 numeral_2_eq_2)
  have "length ?b \<le> length (drop 2 junk)" using k(2) assms(2,3) by (simp add: kvdb_consts)
  from recv_safe_carries [of rx2 ?b "[]" "drop 2 junk" errno ?h] c2 this obtain rx3 where
    r2: "recv_safe errno rx2 M 2 (Suc (length k) + length v + 2) =
      (int (Suc (length k) + length v + 2), errno, ?h @ ?b @ drop (length ?b) (drop 2 junk), rx3)"
    by (auto simp: M_def add.commute add.left_commute numeral_2_eq_2)
  define X where "X = ?h @ ?b @ drop (length ?b) (drop 2 junk)"
  have X: "cstr (drop 2 X) = k" "drop (2 + Suc (length k)) X = v @ drop (length ?b) (drop 2 junk)"
    using k by (simp_all add: X_def)
  have h: "ubyte (M ! 0) = Suc (length k)" "ubyte (M ! 1) = length v"
    using name_byte [OF assms(1)] assms(2) by (simp_all add: M_def kvdb_consts)
  have lim: "\<not> PROP_NAME_MAX < Suc (length k)" "\<not> PROP_VALUE_MAX < length v" "length k \<le> PROP_NAME_MAX - 1"
    using k assms(2) by auto
  have "strlcpy k PROP_NAME_MAX = k" using lim by (simp add: strlcpy_def)
  then show ?thesis
    unfolding property_monitor_read_def rc
    using h lim r2 [folded X_def] X M by (simp add: Let_def min_def)
qed

end
