(* ===== verification/Sessions.thy ===== *)
theory Sessions
  imports Served
begin

text \<open>
  Sessions: any number of processes set, get and delete properties in any order. The specification is
  a map from keys to values that all processes share, under the environment variables that each process
  has for itself. A step relation says what a store may answer that can fail: a call that fails changes
  nothing, one that succeeds changes its key; in every sequence of such steps a key has the value that the last
  successful call gave it. A store that cannot fail refines the map as a function. The locales \<open>session_store\<close> and
  \<open>exact_store\<close> are the two contracts; the client with the server and the direct access are instances.
\<close>

section \<open>The operations of a process and the specification\<close>

record 'w pops =
  op_set :: "'w proc \<Rightarrow> string \<Rightarrow> string \<Rightarrow> int \<times> 'w proc"
  op_get :: "'w proc \<Rightarrow> string \<Rightarrow> (fault + int \<times> string) \<times> 'w proc"
  op_delete :: "'w proc \<Rightarrow> string \<Rightarrow> int \<times> 'w proc"

text \<open>What a program does with the accessors: a set, a get into a full buffer without a default, a delete.\<close>

definition store_ops :: "'w papi \<Rightarrow> ('w proc \<Rightarrow> string \<Rightarrow> int \<times> 'w proc) \<Rightarrow> 'w pops" where
  "store_ops P del =
     \<lparr>op_set = \<lambda>p k v. property_set P p k (Some v),
      op_get = \<lambda>p k. property_get P p k (Some PROP_VALUE_MAX) None, op_delete = del\<rparr>"

definition client_ops :: "'n net \<Rightarrow> cmem \<Rightarrow> 'n pops" where
  "client_ops N junk = store_ops (client_api N junk) (\<lambda>p k. the (client_property_delete N p (Some k)))"

definition direct_ops :: "'w backend \<Rightarrow> 'w pops" where
  "direct_ops B = store_ops (direct_api B) (\<lambda>p k. direct_delete B p (Some k))"

text \<open>
  The specification. A variable of the process takes the place of the property; \<open>missing\<close> is the code of a
  delete that finds nothing.
\<close>

definition map_set :: "(string \<Rightarrow> string option) proc \<Rightarrow> string \<Rightarrow> string \<Rightarrow> int \<times> (string \<Rightarrow> string option) proc" where
  "map_set p k v =
     (if penv p k \<noteq> None then setenv p k v
      else if PROP_VALUE_MAX \<le> length v + 1 then (- E2BIG, p)
      else (0, p\<lparr>world := (world p)(k \<mapsto> v @ [NUL])\<rparr>))"

text \<open>What a get without a default answers for a stored value.\<close>

definition read_answer :: "string option \<Rightarrow> fault + int \<times> string" where
  "read_answer x =
     (case x of None \<Rightarrow> Inr (- EINVAL, [])
      | Some v \<Rightarrow> Inr (if v = [] then (- EINVAL, []) else (int (length (cstr v)), cstr v)))"

definition map_get ::
  "(string \<Rightarrow> string option) proc \<Rightarrow> string \<Rightarrow> (fault + int \<times> string) \<times> (string \<Rightarrow> string option) proc" where
  "map_get p k =
     (case penv p k of
        Some e \<Rightarrow> (Inr (if PROP_VALUE_MAX \<le> length e then (- E2BIG, []) else (int (length e), e)), p)
      | None \<Rightarrow> (read_answer (world p k), p))"

definition map_delete ::
  "int \<Rightarrow> (string \<Rightarrow> string option) proc \<Rightarrow> string \<Rightarrow> int \<times> (string \<Rightarrow> string option) proc" where
  "map_delete missing p k =
     (if penv p k \<noteq> None then unsetenv p k
      else if world p k = None then (missing, p)
      else (0, p\<lparr>world := (world p)(k := None)\<rparr>))"

definition map_ops :: "int \<Rightarrow> (string \<Rightarrow> string option) pops" where
  "map_ops missing = \<lparr>op_set = map_set, op_get = map_get, op_delete = map_delete missing\<rparr>"

section \<open>Sessions\<close>

datatype request = SetReq string string | GetReq string | DeleteReq string

fun do_request :: "'w pops \<Rightarrow> 'w proc \<Rightarrow> request \<Rightarrow> (fault + int \<times> string) \<times> 'w proc" where
  "do_request C p (SetReq k v) = (case op_set C p k v of (r, p) \<Rightarrow> (Inr (r, []), p))"
| "do_request C p (GetReq k) = op_get C p k"
| "do_request C p (DeleteReq k) = (case op_delete C p k of (r, p) \<Rightarrow> (Inr (r, []), p))"

text \<open>
  Each request comes with the number of the process that makes it; \<open>E\<close> are the variables of the processes, for
  which there is always memory. The requests of different processes follow each other in the order of the list,
  as the server handles them, one connection at a time.
\<close>

type_synonym envs = "nat \<Rightarrow> string \<Rightarrow> string option"

fun session :: "'w pops \<Rightarrow> envs \<Rightarrow> 'w \<Rightarrow> (nat \<times> request) list \<Rightarrow> (fault + int \<times> string) list \<times> envs \<times> 'w" where
  "session C E w [] = ([], E, w)"
| "session C E w ((i, q) # qs) =
     (case do_request C \<lparr>penv = E i, env_nomem = False, world = w\<rparr> q of
        (a, p) \<Rightarrow>
          (case session C (E(i := penv p)) (world p) qs of (as, Ew) \<Rightarrow> (a # as, Ew)))"

fun good_request :: "(string \<Rightarrow> bool) \<Rightarrow> request \<Rightarrow> bool" where
  "good_request good_key (SetReq k v) \<longleftrightarrow> good_key k \<and> cstring v"
| "good_request good_key (GetReq k) \<longleftrightarrow> good_key k"
| "good_request good_key (DeleteReq k) \<longleftrightarrow> good_key k"

text \<open>The process of the specification that stands for a process of the program.\<close>

definition absp :: "('w \<Rightarrow> string \<Rightarrow> string option) \<Rightarrow> 'w proc \<Rightarrow> (string \<Rightarrow> string option) proc" where
  "absp view p = \<lparr>penv = penv p, env_nomem = env_nomem p, world = view (world p)\<rparr>"

lemma absp_simps [simp]:
  "penv (absp view p) = penv p" "env_nomem (absp view p) = env_nomem p" "world (absp view p) = view (world p)"
  by (simp_all add: absp_def)

lemma absp_eq: "penv q = penv p \<Longrightarrow> env_nomem q = env_nomem p \<Longrightarrow> view (world q) = view (world p) \<Longrightarrow> absp view q = absp view p"
  by (simp add: absp_def)

lemma cstr_append_end [simp]: "cstr (v @ [NUL]) = cstr v"
  by (induction v) auto

section \<open>The step relation\<close>

inductive map_step ::
  "(string \<Rightarrow> string option) proc \<Rightarrow> request \<Rightarrow> fault + int \<times> string \<Rightarrow> (string \<Rightarrow> string option) proc \<Rightarrow> bool" where
  set_env: "penv p k = Some e \<Longrightarrow> setenv p k v = (r, p') \<Longrightarrow> map_step p (SetReq k v) (Inr (r, [])) p'"
| set_done: "penv p k = None \<Longrightarrow> length v + 1 < PROP_VALUE_MAX \<Longrightarrow> 0 \<le> r \<Longrightarrow>
    map_step p (SetReq k v) (Inr (r, [])) (p\<lparr>world := (world p)(k \<mapsto> v @ [NUL])\<rparr>)"
| set_refused: "penv p k = None \<Longrightarrow> r < 0 \<Longrightarrow> map_step p (SetReq k v) (Inr (r, [])) p"
| got: "map_get p k = (a, p') \<Longrightarrow> map_step p (GetReq k) a p'"
| delete_env: "penv p k = Some e \<Longrightarrow> unsetenv p k = (r, p') \<Longrightarrow> map_step p (DeleteReq k) (Inr (r, [])) p'"
| delete_done: "penv p k = None \<Longrightarrow> 0 \<le> r \<Longrightarrow>
    map_step p (DeleteReq k) (Inr (r, [])) (p\<lparr>world := (world p)(k := None)\<rparr>)"
| delete_refused: "penv p k = None \<Longrightarrow> r < 0 \<Longrightarrow> map_step p (DeleteReq k) (Inr (r, [])) p"

inductive_cases map_step_setE: "map_step p (SetReq k v) a p'"
inductive_cases map_step_getE: "map_step p (GetReq k) a p'"
inductive_cases map_step_deleteE: "map_step p (DeleteReq k) a p'"

lemmas map_stepE = map_step_setE map_step_getE map_step_deleteE

text \<open>A sequence of answered requests, each of which is a step of \<open>R\<close> for its process.\<close>

inductive trace ::
  "((string \<Rightarrow> string option) proc \<Rightarrow> request \<Rightarrow> fault + int \<times> string \<Rightarrow> (string \<Rightarrow> string option) proc \<Rightarrow> bool) \<Rightarrow>
   envs \<Rightarrow> (string \<Rightarrow> string option) \<Rightarrow> ((nat \<times> request) \<times> (fault + int \<times> string)) list \<Rightarrow>
   envs \<Rightarrow> (string \<Rightarrow> string option) \<Rightarrow> bool" for R where
  trace_Nil: "trace R E m [] E m"
| trace_Cons: "R \<lparr>penv = E i, env_nomem = False, world = m\<rparr> q a p \<Longrightarrow>
    trace R (E(i := penv p)) (world p) tr E' m' \<Longrightarrow> trace R E m (((i, q), a) # tr) E' m'"

inductive_cases trace_NilE: "trace R E m [] E' m'"
inductive_cases trace_ConsE: "trace R E m (((i, q), a) # tr) E' m'"

text \<open>When every request is a step of \<open>R\<close> under an abstraction, every session is a trace.\<close>

lemma session_trace:
  assumes request: "\<And>p q a p'. ok (world p) \<Longrightarrow> good q \<Longrightarrow> do_request C p q = (a, p') \<Longrightarrow>
      ok (world p') \<and> R (absp view p) q a (absp view p')"
  shows "ok w \<Longrightarrow> list_all (\<lambda>iq. good (snd iq)) qs \<Longrightarrow> session C E w qs = (as, E', w') \<Longrightarrow>
    ok w' \<and> length as = length qs \<and> trace R E (view w) (zip qs as) E' (view w')"
proof (induction qs arbitrary: E w as)
  case Nil
  then show ?case by (auto intro: trace_Nil)
next
  case (Cons iq qs)
  obtain i q where iq: "iq = (i, q)" by (cases iq)
  let ?p = "\<lparr>penv = E i, env_nomem = False, world = w\<rparr>"
  obtain a p' where a: "do_request C ?p q = (a, p')" by (metis prod.exhaust)
  obtain as' where as': "session C (E(i := penv p')) (world p') qs = (as', E', w')" "as = a # as'"
    using Cons.prems(3) a iq by (auto split: prod.splits)
  have "good q" using Cons.prems(2) iq by simp
  from request [OF _ this a] Cons.prems(1)
  have p': "ok (world p')" "R (absp view ?p) q a (absp view p')" by simp_all
  have "absp view ?p = \<lparr>penv = E i, env_nomem = False, world = view w\<rparr>" by (simp add: absp_def)
  note p'(2) [unfolded this]
  moreover have "ok w' \<and> length as' = length qs \<and> trace R (E(i := penv p')) (view (world p')) (zip qs as') E' (view w')"
    by (rule Cons.IH [OF p'(1) _ as'(1)]) (use Cons.prems(2) in simp)
  ultimately show ?case using iq as'(2) trace_Cons [of R E i "view w" q a "absp view p'"] by simp
qed

text \<open>A trace of the requests of a store of the specification is its session.\<close>

lemma trace_session:
  "trace (\<lambda>p q a p'. do_request C p q = (a, p')) E m (zip qs as) E' m' \<Longrightarrow> length as = length qs \<Longrightarrow>
   session C E m qs = (as, E', m')"
proof (induction qs arbitrary: E m as)
  case (Cons iq qs)
  obtain i q a as' where x: "iq = (i, q)" "as = a # as'" using Cons.prems(2) by (cases iq; cases as) auto
  from Cons.prems(1) [unfolded x, simplified] obtain p where
    p: "do_request C \<lparr>penv = E i, env_nomem = False, world = m\<rparr> q = (a, p)"
    "trace (\<lambda>p q a p'. do_request C p q = (a, p')) (E(i := penv p)) (world p) (zip qs as') E' m'"
    by (rule trace_ConsE)
  have "session C (E(i := penv p)) (world p) qs = (as', E', m')"
    by (rule Cons.IH [OF p(2)]) (use Cons.prems(2) x in simp)
  with p(1) x show ?case by simp
qed (auto elim: trace_NilE)

text \<open>The value of a key after a sequence of answered requests: what the last successful call gave it.\<close>

fun last_write ::
  "string \<Rightarrow> string option \<Rightarrow> ((nat \<times> request) \<times> (fault + int \<times> string)) list \<Rightarrow> string option" where
  "last_write k x [] = x"
| "last_write k x (((i, SetReq k' v), Inr (r, d)) # tr) =
     last_write k (if k' = k \<and> 0 \<le> r then Some (v @ [NUL]) else x) tr"
| "last_write k x (((i, DeleteReq k'), Inr (r, d)) # tr) = last_write k (if k' = k \<and> 0 \<le> r then None else x) tr"
| "last_write k x (_ # tr) = last_write k x tr"

lemma map_get_same: "map_get p k = (a, p') \<Longrightarrow> p' = p"
  by (simp add: map_get_def split: option.splits)

lemma last_write_get [simp]: "last_write k x (((i, GetReq k'), a) # tr) = last_write k x tr"
  by (cases a) auto

lemma map_step_key:
  assumes "map_step p q a p'" "penv p k = None"
  shows "penv p' k = None \<and> last_write k (world p k) (((i, q), a) # tr) = last_write k (world p' k) tr"
  using assms
proof (induction rule: map_step.induct)
  case (got p k' a p')
  then show ?case using map_get_same by auto
qed (auto simp: setenv_def unsetenv_def split: if_splits)

theorem trace_last_write:
  assumes "trace map_step E m tr E' m'" "\<And>i. E i k = None"
  shows "m' k = last_write k (m k) tr \<and> (\<forall>i. E' i k = None)"
  using assms
proof (induction rule: trace.induct)
  case (trace_Cons E i m q a p tr E' m')
  have p: "penv p k = None \<and> last_write k (m k) (((i, q), a) # tr) = last_write k (world p k) tr"
    using map_step_key [OF trace_Cons.hyps(1), of k i tr] trace_Cons.prems by simp
  have "m' k = last_write k (world p k) tr \<and> (\<forall>i. E' i k = None)"
    by (rule trace_Cons.IH) (use p trace_Cons.prems in \<open>auto split: if_splits\<close>)
  with p show ?case by simp
qed simp

section \<open>Stores that may fail\<close>

locale session_store = property_store P view ok good_key sync
  for P :: "'w papi" and view ok good_key sync +
  fixes del :: "'w proc \<Rightarrow> string \<Rightarrow> int \<times> 'w proc"
  assumes waits: "sync False"
    and delete_step: "ok (world p) \<Longrightarrow> good_key k \<Longrightarrow> del p k = (r, p') \<Longrightarrow>
      ok (world p') \<and> map_step (absp view p) (DeleteReq k) (Inr (r, [])) (absp view p')"
begin

lemma set_step:
  assumes "ok (world p)" "good_key k" "cstring v" "property_set P p k (Some v) = (r, p')"
  shows "ok (world p') \<and> map_step (absp view p) (SetReq k v) (Inr (r, [])) (absp view p')"
proof (cases "penv p k")
  case (Some e)
  with assms have "setenv (absp view p) k v = (r, absp view p')" "ok (world p')"
    by (auto simp: property_set_def property_set_ow_def setenv_def absp_def split: if_splits)
  with Some show ?thesis by (auto intro: set_env)
next
  case None
  let ?n = "length v + 1"
  obtain q w where b: "property_set_binary P (world p) (Some k) (mem_of v) ?n False = (q, w)"
    by (metis prod.exhaust)
  have p': "r = q" "p' = p\<lparr>world := w\<rparr>"
    using assms(3,4) None b by (simp_all add: property_set_def property_set_ow_def)
  have n: "0 < ?n" "?n \<le> length (mem_of v)" by (simp_all add: mem_of_def)
  have *: "map_step (absp view p) (SetReq k v) (Inr (r, [])) (absp view p')"
    if "absp view p' = (if r < 0 then absp view p else (absp view p)\<lparr>world := (view (world p))(k \<mapsto> v @ [NUL])\<rparr>)"
      "r < 0 \<or> ?n < PROP_VALUE_MAX"
    using None that set_done [of "absp view p" k v r] set_refused [of "absp view p" k r v] by (auto split: if_splits)
  show ?thesis
  proof (cases "?n < PROP_VALUE_MAX")
    case True
    from set_any [OF assms(1,2) n(1) True n(2) b] set_law [OF assms(1) waits assms(2) n(1) True n(2) b] p'
    have "ok (world p')" "view w = (if r < 0 then view (world p) else (view (world p))(k \<mapsto> v @ [NUL]))"
      by (simp_all add: mem_of_def)
    moreover from this(2) p'
    have "absp view p' = (if r < 0 then absp view p else (absp view p)\<lparr>world := (view (world p))(k \<mapsto> v @ [NUL])\<rparr>)"
      by (simp add: absp_def)
    ultimately show ?thesis using * True by blast
  next
    case False
    with set_reject [OF assms(2), of ?n "world p" "mem_of v" False] b p' assms(1)
    have "ok (world p')" "absp view p' = absp view p" "r < 0" by (simp_all add: absp_def errno_defs)
    then show ?thesis using * by simp
  qed
qed

lemma get_refines:
  assumes "ok (world p)" "good_key k" "property_get P p k (Some PROP_VALUE_MAX) None = (a, p')"
  shows "ok (world p') \<and> map_get (absp view p) k = (a, absp view p')"
proof (cases "penv p k")
  case (Some e)
  with assms show ?thesis by (auto simp: property_get_def map_get_def)
next
  case None
  obtain q d w where b: "property_get_binary P (world p) (Some k) True PROP_VALUE_MAX = ((q, d), w)"
    by (metis prod.exhaust)
  note g = get_law [OF assms(1,2) b]
  show ?thesis
  proof (cases "view (world p) k")
    case None': None
    with g None b assms(3) show ?thesis by (auto simp: property_get_def map_get_def read_answer_def absp_def)
  next
    case (Some v)
    note view_bound [OF assms(1) Some]
    with g Some None b assms(3) show ?thesis
      by (auto simp: property_get_def map_get_def read_answer_def absp_def strlen_def)
  qed
qed

lemma request_step:
  assumes "ok (world p)" "good_request good_key q" "do_request (store_ops P del) p q = (a, p')"
  shows "ok (world p') \<and> map_step (absp view p) q a (absp view p')"
  using assms
  by (cases q) (auto simp: store_ops_def split: prod.splits dest: set_step get_refines delete_step intro: got)

text \<open>Every session of the store is a sequence of steps of the specification.\<close>

theorem session_traces:
  assumes "ok w" "list_all (\<lambda>iq. good_request good_key (snd iq)) qs"
    and "session (store_ops P del) E w qs = (as, E', w')"
  shows "ok w' \<and> trace map_step E (view w) (zip qs as) E' (view w')"
  using session_trace [where R = map_step and C = "store_ops P del", OF request_step assms] by blast

text \<open>So a get after a session reads what the last successful call wrote.\<close>

theorem session_last_write:
  assumes "ok w" "list_all (\<lambda>iq. good_request good_key (snd iq)) qs" "good_key k" "\<And>i. E i k = None"
    and "session (store_ops P del) E w qs = (as, E', w')" "world p = w'" "penv p = E' j"
  shows "fst (property_get P p k (Some PROP_VALUE_MAX) None) = read_answer (last_write k (view w k) (zip qs as))"
proof -
  from session_traces [OF assms(1,2,5)] have t: "ok w'" "trace map_step E (view w) (zip qs as) E' (view w')" by auto
  from trace_last_write [OF t(2), of k] assms(4)
  have m: "view w' k = last_write k (view w k) (zip qs as)" "E' j k = None" by auto
  obtain a p' where g: "property_get P p k (Some PROP_VALUE_MAX) None = (a, p')" by (metis prod.exhaust)
  have "map_get (absp view p) k = (a, absp view p')"
    using get_refines [OF _ assms(3) g] t(1) assms(6) by simp
  with g m assms(6,7) show ?thesis by (simp add: map_get_def)
qed

end

section \<open>Exact stores\<close>

locale exact_store = session_store P view ok good_key sync del
  for P :: "'w papi" and view ok good_key sync del +
  fixes missing :: int
  assumes set_zero: "ok w \<Longrightarrow> good_key k \<Longrightarrow> 0 < n \<Longrightarrow> n < PROP_VALUE_MAX \<Longrightarrow> n \<le> length v \<Longrightarrow>
      fst (property_set_binary P w (Some k) v n False) = 0"
    and delete_code: "ok (world p) \<Longrightarrow> good_key k \<Longrightarrow> penv p k = None \<Longrightarrow>
      fst (del p k) = (if view (world p) k = None then missing else 0)"
    and missing_neg: "missing < 0"
begin

lemma set_code:
  assumes "ok (world p)" "good_key k" "cstring v" "penv p k = None"
  shows "fst (property_set P p k (Some v)) = (if PROP_VALUE_MAX \<le> length v + 1 then - E2BIG else 0)"
proof -
  have n: "0 < length v + 1" "length v + 1 \<le> length (mem_of v)" by (simp_all add: mem_of_def)
  have "fst (property_set P p k (Some v)) = fst (property_set_binary P (world p) (Some k) (mem_of v) (length v + 1) False)"
    using assms(3,4) by (simp add: property_set_def property_set_ow_def split: prod.split)
  then show ?thesis
    using set_zero [OF assms(1,2) n(1) _ n(2)] set_reject [OF assms(2), of "length v + 1" "world p" "mem_of v" False] by auto
qed

lemma set_refines:
  assumes "ok (world p)" "good_key k" "cstring v" "property_set P p k (Some v) = (r, p')"
  shows "map_set (absp view p) k v = (r, absp view p')"
proof -
  from set_step [OF assms] have "map_step (absp view p) (SetReq k v) (Inr (r, [])) (absp view p')" ..
  then show ?thesis
    using set_code [OF assms(1-3)] assms(4)
    by (cases rule: map_step_setE) (auto simp: map_set_def errno_defs split: if_splits)
qed

lemma delete_refines:
  assumes "ok (world p)" "good_key k" "del p k = (r, p')"
  shows "map_delete missing (absp view p) k = (r, absp view p')"
proof -
  from delete_step [OF assms] have "map_step (absp view p) (DeleteReq k) (Inr (r, [])) (absp view p')" ..
  then show ?thesis
    using delete_code [OF assms(1,2)] assms(3) missing_neg
    by (cases rule: map_step_deleteE) (auto simp: map_delete_def split: if_splits)
qed

text \<open>Every session of the store is a session of the map.\<close>

lemma request_refines:
  assumes "ok (world p)" "good_request good_key q" "do_request (store_ops P del) p q = (a, p')"
  shows "ok (world p') \<and> do_request (map_ops missing) (absp view p) q = (a, absp view p')"
proof
  show "ok (world p')" using request_step [OF assms] ..
  show "do_request (map_ops missing) (absp view p) q = (a, absp view p')"
    using assms by (cases q) (auto simp: store_ops_def map_ops_def split: prod.splits
      dest: set_refines get_refines delete_refines)
qed

theorem session_refines:
  assumes "ok w" "list_all (\<lambda>iq. good_request good_key (snd iq)) qs"
    and "session (store_ops P del) E w qs = (as, E', w')"
  shows "ok w' \<and> session (map_ops missing) E (view w) qs = (as, E', view w')"
  using session_trace [where R = "\<lambda>p q a p'. do_request (map_ops missing) p q = (a, p')" and C = "store_ops P del",
      OF request_refines assms] trace_session by blast

end

section \<open>The client and the direct access\<close>

sublocale kv_steady \<subseteq> direct_session: session_store "direct_api B" view idle good_key "\<lambda>_. True"
    "\<lambda>p k. direct_delete B p (Some k)"
proof (unfold_locales, goal_cases)
  case (2 p k r p')
  show ?case
  proof (cases "penv p k")
    case (Some e)
    with 2 good_key_wf [OF 2(2)] have "unsetenv (absp view p) k = (r, absp view p')" "idle (world p')"
      by (auto simp: direct_delete_def unsetenv_def absp_def split: if_splits)
    with Some show ?thesis by (auto intro: delete_env)
  next
    case None
    from direct_delete_law [OF 2] None
    have "idle (world p')" "penv p' = penv p"
      "view (world p') = (if r < 0 then view (world p) else (view (world p))(k := None))" by simp_all
    moreover have "env_nomem p' = env_nomem p"
      using 2(3) None by (auto simp: direct_delete_def Let_def split: if_splits prod.splits)
    ultimately show ?thesis
      using None delete_done [of "absp view p" k r] delete_refused [of "absp view p" k r]
      by (auto simp: absp_def split: if_splits)
  qed
qed simp

sublocale kv_server \<subseteq> served_session: session_store "client_api (served_net cfg B junk now seg) junk"
    "\<lambda>n. view (kvdb (fst n))" "served_ok opened" good_key Not
    "\<lambda>p k. the (client_property_delete (served_net cfg B junk now seg) p (Some k))"
proof (unfold_locales, goal_cases)
  case (2 p k r p')
  show ?case
  proof (cases "penv p k")
    case (Some e)
    with 2 good_key_wf [OF 2(2)]
    have "unsetenv (absp (\<lambda>n. view (kvdb (fst n))) p) k = (r, absp (\<lambda>n. view (kvdb (fst n))) p')"
      "served_ok opened (world p')"
      by (auto simp: client_property_delete_def unsetenv_def absp_def split: if_splits)
    with Some show ?thesis by (auto intro: delete_env)
  next
    case None
    from served_delete [OF 2(1,2) None junk seg refl, of cfg now] obtain err w tail s' next' where
      d: "client_property_delete (served_net cfg B junk now seg) p (Some k) = Some (err, p\<lparr>world := (s', next')\<rparr>)"
      and st: "kvdb_delete B (kvdb (fst (world p))) (Some (k @ NUL # tail)) (Suc (length k)) = (err, w)"
      and s': "kvdb s' = w" "served_ok opened (s', next')" by blast
    have eq: "r = err" "p' = p\<lparr>world := (s', next')\<rparr>" using 2(3) d by simp_all
    have "opened (kvdb (fst (world p)))" using 2(1) by (simp add: served_ok_def)
    from delete_law [OF this 2(2) st] s' None show ?thesis unfolding eq
      using delete_done [of "absp (\<lambda>n. view (kvdb (fst n))) p" k err]
        delete_refused [of "absp (\<lambda>n. view (kvdb (fst n))) p" k err]
      by (auto simp: absp_def split: if_splits)
  qed
qed simp

context kv_server
begin

lemma served_last_write:
  assumes "served_ok opened n" "list_all (\<lambda>iq. good_request good_key (snd iq)) qs" "good_key k" "\<And>i. E i k = None"
    and "session (client_ops (served_net cfg B junk now seg) junk) E n qs = (as, E', n')" "world p = n'" "penv p = E' j"
  shows "fst (property_get (client_api (served_net cfg B junk now seg) junk) p k (Some PROP_VALUE_MAX) None) =
    read_answer (last_write k (view (kvdb (fst n)) k) (zip qs as))"
  using served_session.session_last_write [where E = E and k = k, OF assms(1-4)] assms(5-7) by (simp add: client_ops_def)

end

section \<open>Exact backends\<close>

text \<open>
  A backend is exact when it can be opened, every set of a legal value succeeds with code 0, and a delete
  fails, with one code, exactly when the key is not there.
\<close>

locale kv_exact = kv_service B view idle opened good_key + kv_steady B view idle opened good_key
  for B :: "'w backend" and view idle opened good_key +
  fixes missing :: int
  assumes set_total: "opened w \<Longrightarrow> good_key k \<Longrightarrow> 0 < n \<Longrightarrow> n < PROP_VALUE_MAX \<Longrightarrow> n \<le> length v \<Longrightarrow>
      fst (kvdb_set B w (Some (k @ NUL # m)) (Suc (length k)) (Some v) n False) = 0"
    and delete_total: "opened w \<Longrightarrow> good_key k \<Longrightarrow>
      fst (kvdb_delete B w (Some (k @ NUL # m)) (Suc (length k))) = (if view w k = None then missing else 0)"
    and missing_neg: "missing < 0"

sublocale kv_exact \<subseteq> direct_exact: exact_store "direct_api B" view idle good_key "\<lambda>_. True"
    "\<lambda>p k. direct_delete B p (Some k)" missing
proof (unfold_locales, goal_cases)
  case (1 w k n v)
  obtain q w1 where i: "kvdb_init B w = (q, w1)" by (metis prod.exhaust)
  with init_ok [OF 1(1)] init_law [OF 1(1) i] have "\<not> q < 0" "opened w1" by auto
  with set_total [OF _ 1(2-5), of w1 "[]"] direct_set_good [OF 1(2-4)] i show ?case
    by (auto simp: direct_api_def split: prod.split)
next
  case (2 p k)
  obtain q w1 where i: "kvdb_init B (world p) = (q, w1)" by (metis prod.exhaust)
  with init_ok [OF 2(1)] init_law [OF 2(1) i] have "\<not> q < 0" "opened w1" "view w1 = view (world p)" by auto
  with delete_total [OF _ 2(2), of w1 "[]"] i 2(3) good_key_wf [OF 2(2)] show ?case
    by (auto simp: direct_delete_def mem_of_def split: prod.split)
qed (rule missing_neg)

locale exact_server = kv_exact B view idle opened good_key missing + kv_server B view idle opened good_key cfg junk now seg
  for B :: "'w backend" and view idle opened good_key missing cfg junk now seg

sublocale exact_server \<subseteq> served_exact: exact_store "client_api (served_net cfg B junk now seg) junk"
    "\<lambda>n. view (kvdb (fst n))" "served_ok opened" good_key Not
    "\<lambda>p k. the (client_property_delete (served_net cfg B junk now seg) p (Some k))" missing
proof (unfold_locales, goal_cases)
  case (1 n k len v)
  obtain s "next" where n: "n = (s, next)" by (cases n)
  from served_set [OF 1(1) [unfolded n] 1(2-5) junk seg refl, of cfg now False]
  obtain err w tail s' next' where
    r: "client_set_binary (served_net cfg B junk now seg) (s, next) (Some k) v len False = Some (err, s', next')"
    and st: "kvdb_set B (kvdb s) (Some (k @ NUL # take len v @ tail)) (Suc (length k)) (Some (take len v @ tail)) len False = (err, w)"
    by auto
  have "opened (kvdb s)" "len \<le> length (take len v @ tail)" using 1(1,5) n by (simp_all add: served_ok_def)
  from set_total [OF this(1) 1(2-4) this(2)] st r n show ?case by (simp add: client_api_def) (metis fst_conv)
next
  case (2 p k)
  from served_delete [OF 2 junk seg refl, of cfg now] obtain err w tail s' next' where
    "client_property_delete (served_net cfg B junk now seg) p (Some k) = Some (err, p\<lparr>world := (s', next')\<rparr>)"
    "kvdb_delete B (kvdb (fst (world p))) (Some (k @ NUL # tail)) (Suc (length k)) = (err, w)" by blast
  with delete_total [OF _ 2(2), of "kvdb (fst (world p))" tail] 2(1) show ?case by (simp add: served_ok_def)
qed (rule missing_neg)

context exact_server
begin

text \<open>The same session through the server and on the storage itself has the same results and the same outcome.\<close>

lemma served_session:
  assumes "served_ok opened n" "list_all (\<lambda>iq. good_request good_key (snd iq)) qs"
    and "session (client_ops (served_net cfg B junk now seg) junk) E n qs = (as, E', n')"
  shows "served_ok opened n' \<and> session (map_ops missing) E (view (kvdb (fst n))) qs = (as, E', view (kvdb (fst n')))"
  using served_exact.session_refines [OF assms(1,2)] assms(3) by (simp add: client_ops_def)

end

section \<open>Prepared file storage\<close>

text \<open>
  The file backend is exact on storage where the directories of the configuration exist and have no
  subdirectory, for the keys that have a database. A delete that finds nothing returns the -1 of \<open>unlink\<close>.
\<close>

definition file_ready :: "config \<Rightarrow> fs \<Rightarrow> bool" where
  "file_ready cfg s \<longleftrightarrow> file_inv cfg s \<and> CONFIG_KVDB_PERSIST_PATH cfg \<in> set (dirs s) \<and>
     (CONFIG_KVDB_TEMPORARY_STORAGE cfg \<longrightarrow> CONFIG_KVDB_TEMPORARY_PATH cfg \<in> set (dirs s)) \<and>
     (\<forall>d \<in> set (dirs s). parent_dir d \<notin> {CONFIG_KVDB_PERSIST_PATH cfg, CONFIG_KVDB_TEMPORARY_PATH cfg})"

definition file_db_key :: "config \<Rightarrow> string \<Rightarrow> bool" where
  "file_db_key cfg k \<longleftrightarrow> file_good_key cfg k \<and> (persistent k \<or> CONFIG_KVDB_TEMPORARY_STORAGE cfg)"

lemma file_db_key_good: "file_db_key cfg k \<Longrightarrow> file_good_key cfg k"
  by (simp add: file_db_key_def)

lemma file_ready_inv: "file_ready cfg s \<Longrightarrow> file_inv cfg s"
  by (simp add: file_ready_def)

lemma fs_open_trunc_dirs: "dirs (snd (fs_open_trunc s p)) = dirs s"
  by (auto simp: fs_open_trunc_def Let_def split: prod.split sysres.split)

lemma kvdb_file_set_dirs: "dirs (snd (kvdb_file_set s d key v n)) = dirs s"
  using fs_open_trunc_dirs [of s "kvdb_file_genpath d key"]
  by (auto simp: kvdb_file_set_def Let_def split: prod.split sum.split)

lemma file_set_dirs: "dirs (snd (file_kvdb_set cfg s key kl v n f)) = dirs s"
  by (auto simp: file_kvdb_set_def kvdb_file_set_dirs Let_def split: option.split)

lemma fs_unlink_dirs: "dirs (snd (fs_unlink s p)) = dirs s"
  by (auto simp: fs_unlink_def Let_def split: prod.split sysres.split)

lemma file_delete_dirs: "dirs (snd (file_kvdb_delete cfg s key kl)) = dirs s"
  by (auto simp: file_kvdb_delete_def kvdb_file_delete_def fs_unlink_dirs Let_def split: option.split)

lemma file_get_same:
  assumes "file_inv cfg s" "file_kvdb_get cfg s (Some key) kl hb n = (r, s')"
  shows "s' = s"
proof -
  have "io s = []" using assms(1) by (simp add: file_inv_def)
  with assms(2) show ?thesis
    by (cases r) (auto simp: file_kvdb_get_def Let_def dest: kvdb_file_get_any split: if_splits)
qed

lemma file_ready_step: "file_ready cfg s \<Longrightarrow> file_inv cfg s' \<Longrightarrow> dirs s' = dirs s \<Longrightarrow> file_ready cfg s'"
  by (simp add: file_ready_def)

lemma file_ready_room:
  assumes "file_ready cfg s" "file_db_key cfg k"
  shows "file_room cfg s k" "file_dir cfg k @ ''/'' @ k \<notin> set (dirs s)"
proof -
  have k: "CHR ''/'' \<notin> set k" using assms(2) by (simp add: file_db_key_def file_good_key_def)
  have p: "parent_dir (file_dir cfg k @ ''/'' @ k) = file_dir cfg k" by (rule parent_dir_join [OF k])
  show d: "file_dir cfg k @ ''/'' @ k \<notin> set (dirs s)"
  proof
    assume "file_dir cfg k @ ''/'' @ k \<in> set (dirs s)"
    with assms(1) p have "file_dir cfg k \<notin> {CONFIG_KVDB_PERSIST_PATH cfg, CONFIG_KVDB_TEMPORARY_PATH cfg}"
      unfolding file_ready_def by metis
    then show False by (simp add: file_dir_def split: if_splits)
  qed
  with assms show "file_room cfg s k" by (auto simp: file_room_def file_ready_def file_db_key_def file_dir_def)
qed

lemma file_delete_total:
  assumes "file_ready cfg s" "file_db_key cfg k"
  shows "fst (file_kvdb_delete cfg s (Some (k @ NUL # m)) kl) = (if file_view cfg s k = None then - 1 else 0)"
proof -
  have k: "cstring k" "file_good_key cfg k" "persistent k \<or> CONFIG_KVDB_TEMPORARY_STORAGE cfg" and io: "io s = []"
    using assms by (auto simp: file_db_key_def file_good_key_def file_ready_def file_inv_def)
  show ?thesis
    using file_ready_room(2) [OF assms] k
    unfolding file_kvdb_delete_dir [OF k(1)] kvdb_file_delete_quiet [OF io k(2) refl] file_view_def
    by (simp del: append_Cons append_Nil)
qed

lemma file_kv_ready: "kv_service (file_backend cfg) (file_view cfg) (file_ready cfg) (file_ready cfg) (file_db_key cfg)"
proof (unfold_locales, goal_cases)
  case (1 k)
  then show ?case using fb.good_key_wf file_db_key_good by blast
next
  case (2 w k v)
  then show ?case using fb.view_bound file_ready_inv by blast
next
  case (5 w k n v m f r w')
  from fb.set_law [OF file_ready_inv [OF 5(1)] file_db_key_good [OF 5(2)] 5(3-5)] file_ready_step [OF 5(1), of w']
    file_set_dirs [of cfg w "Some (k @ NUL # m)" "Suc (length k)" "Some v" n f] 5(5)
  show ?case by (simp add: file_backend_def)
next
  case (6 w k m n r d w')
  from fb.get_law [OF file_ready_inv [OF 6(1)] file_db_key_good [OF 6(2)] 6(3)] 6(1,3)
    file_get_same [OF file_ready_inv [OF 6(1)], of "k @ NUL # m" "Suc (length k)" True n "(r, d)" w']
  show ?case by (simp add: file_backend_def)
next
  case (7 w k m r w')
  from fb.delete_law [OF file_ready_inv [OF 7(1)] file_db_key_good [OF 7(2)] 7(3)] file_ready_step [OF 7(1), of w']
    file_delete_dirs [of cfg w "Some (k @ NUL # m)" "Suc (length k)"] 7(3)
  show ?case by (simp add: file_backend_def)
next
  case (9 w key kl v n f r w')
  from fs.set_opened [OF file_ready_inv [OF 9(1)] 9(2)] file_ready_step [OF 9(1), of w']
    file_set_dirs [of cfg w "Some key" kl "Some v" n f] 9(2)
  show ?case by (simp add: file_backend_def)
next
  case (10 w key kl hb n r d w')
  from fs.get_opened [OF file_ready_inv [OF 10(1)] 10(2)] 10
    file_get_same [OF file_ready_inv [OF 10(1)], of key kl hb n "(r, d)" w']
  show ?case by (simp add: file_backend_def)
next
  case (11 w key kl r w')
  from fs.delete_opened [OF file_ready_inv [OF 11(1)] 11(2)] file_ready_step [OF 11(1), of w']
    file_delete_dirs [of cfg w "Some key" kl] 11(2)
  show ?case by (simp add: file_backend_def)
next
  case (12 w r calls w')
  from fs.list_opened [OF file_ready_inv [OF 12(1)] 12(2)] 12
    file_list_law [OF file_ready_inv [OF 12(1)], of r calls w'] show ?case by (simp add: file_backend_def)
next
  case (13 n w key kl v f r w')
  then show ?case by (rule fs.set_long)
next
  case (14 w)
  then show ?case using fs.commit_int file_ready_inv by blast
qed (auto simp: file_backend_def file_kvdb_init_def file_kvdb_uninit_def file_kvdb_commit_def)

lemma file_kv_exact: "kv_exact (file_backend cfg) (file_view cfg) (file_ready cfg) (file_ready cfg) (file_db_key cfg) (- 1)"
proof (intro kv_exact.intro kv_exact_axioms.intro kv_steady.intro kv_steady_axioms.intro file_kv_ready
    kv_service.axioms(1) [OF file_kv_ready], goal_cases)
  case (2 w k n v m)
  from file_set_succeeds [OF file_ready_inv [OF 2(1)] file_db_key_good [OF 2(2)] file_ready_room(1) [OF 2(1,2)] 2(4)]
  show ?case by (simp add: file_backend_def)
next
  case (3 w k m)
  from file_delete_total [OF 3] show ?case by (simp add: file_backend_def)
qed (simp_all add: file_backend_def file_kvdb_init_def)

interpretation fx: kv_exact "file_backend cfg" "file_view cfg" "file_ready cfg" "file_ready cfg" "file_db_key cfg" "- 1" for cfg
  by (rule file_kv_exact)

lemma file_exact_server:
  assumes "length junk = PROP_MSG_MAX" "good_seg seg"
  shows "exact_server (file_backend cfg) (file_view cfg) (file_ready cfg) (file_ready cfg) (file_db_key cfg) (- 1) junk seg"
  by (intro exact_server.intro file_kv_exact kv_server.intro kv_server_axioms.intro file_kv_ready assms)

interpretation sx: exact_server "file_backend cfg" "file_view cfg" "file_ready cfg" "file_ready cfg" "file_db_key cfg" "- 1"
    cfg "heap_mem f" now "\<lambda>req. [Bytes req]" for cfg f now
  by (rule file_exact_server) (simp_all add: heap_mem_def good_seg_single)

end
