(* ===== verification/Watchers.thy ===== *)
theory Watchers
  imports Sessions
begin

text \<open>
  Watching properties: a client opens a monitor on a pattern, any number of processes then work on the
  properties through the server, and the client reads its notifications. What it reads are the
  successful changes of the session whose key matches the pattern, in the order in which the server handled
  them, each once, with the value that was stored.
\<close>

section \<open>Opening a monitor\<close>

context kv_service
begin

lemma served_monitor_open:
  assumes ok: "served_ok opened (s, next)" and k: "good_name pat"
    and env: "length junk = PROP_MSG_MAX" "good_seg seg"
  shows "\<exists>s' next' m. property_monitor_open (served_net cfg B junk now seg) (s, next) (Some pat) = Some ((3, []), s', next') \<and>
    kvdb s' = kvdb s \<and> head s' = m # head s \<and> mon_fd m = fresh_fd s \<and> mon_key m = pat \<and> served_ok opened (s', next')"
proof -
  define fd where "fd = fresh_fd s"
  let ?s = "s\<lparr>conns := fd # conns s\<rparr>" and ?m = "\<lparr>mon_addr = brk s, mon_fd = fd, mon_key = pat\<rparr>"
  define s' where "s' = ?s\<lparr>brk := Suc (brk s), watch := (fd, PMon (brk s)) # watch s, head := ?m # head s,
    sent := sent s @ [(fd, bytes32 0)]\<rparr>"
  from ok obtain L where L: "mon_inv L s" "opened (kvdb s)" "sys s = []" "lfd s \<noteq> []"
    by (auto simp: served_ok_def)
  have fd: "fd \<notin> set (conns s)" "fd \<notin> set (lfd s)" using fresh_fd_new [of s] by (auto simp: fd_def)
  then have w: "fd \<notin> fst ` set (watch ?s)" and inv: "mon_inv L s'"
    using L(1) by (auto simp: mon_inv_def mon_watch_def s'_def dest: listen_watch_fd)
  have "arrives (seg (monitor_request pat)) (monitor_request pat)"
    using env(2) by (simp add: good_seg_def monitor_request_def mem_of_def)
  from server_monitor [OF _ env(1) w k this, of cfg B] L(3)
  have "kvdb_client cfg B ?s fd junk (seg (monitor_request pat)) = Inr (False, s')" by (simp add: s'_def)
  from served_send_eq [where seg = seg and req = "monitor_request pat", OF L(4) fd_def this, of now "next"] obtain next'
    where snd: "served_send cfg B junk now seg (s, next) (monitor_request pat) =
      ((int (length (monitor_request pat)), replies fd s s'), s', next')" by blast
  have "replies fd s s' = [Bytes (bytes32 0)]"
    using replies_single [of "[]" fd s' s "[bytes32 0]"] by (simp add: s'_def)
  moreover have "strlen (mem_of pat) + 1 \<le> PROP_NAME_MAX" using k by (simp add: good_name_def)
  ultimately have "property_monitor_open (served_net cfg B junk now seg) (s, next) (Some pat) = Some ((3, []), s', next')"
    using snd unfolding property_monitor_open_def Let_def connect_served
    by (simp add: served_net_def int32_of_bytes32)
  moreover have "served_ok opened (s', next')" using inv L(2-4) by (auto simp: served_ok_def s'_def)
  ultimately show ?thesis by (intro exI [of _ s'] exI [of _ next'] exI [of _ ?m]) (simp add: s'_def fd_def)
qed

end

section \<open>The changes of a session\<close>

fun changes :: "((nat \<times> request) \<times> (fault + int \<times> string)) list \<Rightarrow> (string \<times> string) list" where
  "changes [] = []"
| "changes (((i, SetReq k v), Inr (r, d)) # tr) = (if 0 \<le> r then [(k, v @ [NUL])] else []) @ changes tr"
| "changes (((i, DeleteReq k), Inr (r, d)) # tr) = (if 0 \<le> r then [(k, [])] else []) @ changes tr"
| "changes (_ # tr) = changes tr"

lemma changes_Cons: "changes (x # tr) = changes [x] @ changes tr"
proof -
  obtain i q a where x: "x = ((i, q), a)" by (metis prod.exhaust)
  show ?thesis unfolding x by (cases q; cases a) auto
qed

lemma changes_get [simp]: "changes (((i, GetReq k), a) # tr) = changes tr"
  by (cases a) auto

context kv_server
begin

lemma set_told:
  assumes ok: "served_ok opened (world p)" and k: "good_key k" "cstring v" "penv p = Map.empty"
    and eq: "property_set (client_api (served_net cfg B junk now seg) junk) p k (Some v) = (r, p')"
  shows "served_ok opened (world p') \<and> penv p' = Map.empty \<and>
    told (fst (world p)) (fst (world p')) (if 0 \<le> r then [(k, v @ [NUL])] else []) \<and>
    (0 \<le> r \<longrightarrow> length v + 1 < PROP_VALUE_MAX)"
proof -
  obtain s "next" where wp: "world p = (s, next)" by (cases "world p")
  let ?N = "served_net cfg B junk now seg" and ?n = "length v + 1"
  have set: "property_set (client_api ?N junk) p k (Some v) =
      (case the (client_set_binary ?N (s, next) (Some k) (mem_of v) ?n False) of (r, w) \<Rightarrow> (r, p\<lparr>world := w\<rparr>))"
    using k by (simp add: property_set_def property_set_ow_def client_api_def wp)
  show ?thesis
  proof (cases "?n < PROP_VALUE_MAX")
    case True
    have n: "0 < ?n" "?n \<le> length (mem_of v)" "take ?n (mem_of v) = v @ [NUL]" by (simp_all add: mem_of_def)
    from served_set [OF ok [unfolded wp] k(1) n(1) True n(2) junk seg refl, of cfg now False, unfolded n(3)]
    obtain err s' next' where "client_set_binary ?N (s, next) (Some k) (mem_of v) ?n False = Some (err, s', next')"
      "told s s' (if 0 \<le> err then [(k, v @ [NUL])] else [])" "served_ok opened (s', next')" by auto
    with eq set wp k(3) True show ?thesis by auto
  next
    case False
    with good_key_wf [OF k(1)] have "client_set_binary ?N (s, next) (Some k) (mem_of v) ?n False = Some (- E2BIG, s, next)"
      by (simp add: client_set_binary_def)
    with eq set wp k(3) ok show ?thesis by (auto simp: errno_defs told_refl)
  qed
qed

lemma get_told:
  assumes ok: "served_ok opened (world p)" and k: "good_key k" "penv p = Map.empty"
    and eq: "property_get (client_api (served_net cfg B junk now seg) junk) p k (Some PROP_VALUE_MAX) None = (a, p')"
  shows "served_ok opened (world p') \<and> penv p' = Map.empty \<and> told (fst (world p)) (fst (world p')) []"
proof -
  obtain s "next" where wp: "world p = (s, next)" by (cases "world p")
  from served_get [OF ok [unfolded wp] k(1) order_refl junk seg refl, of cfg now] obtain res s' next' where
    g: "client_get_binary (served_net cfg B junk now seg) (s, next) (Some k) True PROP_VALUE_MAX = Some (res, s', next')"
    and s': "told s s' []" "served_ok opened (s', next')" by blast
  have "p' = p\<lparr>world := (s', next')\<rparr>"
    using eq g wp k(2) by (cases res) (auto simp: property_get_def client_api_def)
  with s' wp k(2) show ?thesis by simp
qed

lemma delete_told:
  assumes ok: "served_ok opened (world p)" and k: "good_key k" "penv p = Map.empty"
    and eq: "the (client_property_delete (served_net cfg B junk now seg) p (Some k)) = (r, p')"
  shows "served_ok opened (world p') \<and> penv p' = Map.empty \<and>
    told (fst (world p)) (fst (world p')) (if 0 \<le> r then [(k, [])] else [])"
proof -
  have "penv p k = None" using k(2) by simp
  from served_delete [OF ok k(1) this junk seg refl, of cfg now] eq k(2) show ?thesis by auto
qed

lemma request_told:
  assumes ok: "served_ok opened (world p)" and q: "good_request good_key q" "penv p = Map.empty"
    and eq: "do_request (client_ops (served_net cfg B junk now seg) junk) p q = (a, p')"
  shows "served_ok opened (world p') \<and> penv p' = Map.empty \<and>
    told (fst (world p)) (fst (world p')) (changes [((i, q), a)]) \<and> (\<forall>c \<in> set (changes [((i, q), a)]). list_pair c)"
proof (cases q)
  case (SetReq k v)
  then obtain r where r: "a = Inr (r, [])" "property_set (client_api (served_net cfg B junk now seg) junk) p k (Some v) = (r, p')"
    using eq by (auto simp: client_ops_def store_ops_def split: prod.splits)
  from set_told [OF ok _ _ q(2) r(2)] q(1) r(1) SetReq good_key_name show ?thesis by (auto simp: list_pair_def)
next
  case (GetReq k)
  then show ?thesis using get_told [OF ok _ q(2), of k a p'] q(1) eq by (simp add: client_ops_def store_ops_def)
next
  case (DeleteReq k)
  then obtain r where r: "a = Inr (r, [])" "the (client_property_delete (served_net cfg B junk now seg) p (Some k)) = (r, p')"
    using eq by (auto simp: client_ops_def store_ops_def split: prod.splits)
  from delete_told [OF ok _ q(2) r(2)] q(1) r(1) DeleteReq good_key_name show ?thesis
    by (auto simp: list_pair_def kvdb_consts)
qed

theorem session_told:
  assumes "served_ok opened n" "list_all (\<lambda>iq. good_request good_key (snd iq)) qs" "\<And>i. E i = Map.empty"
    and "session (client_ops (served_net cfg B junk now seg) junk) E n qs = (as, E', n')"
  shows "told (fst n) (fst n') (changes (zip qs as)) \<and> (\<forall>c \<in> set (changes (zip qs as)). list_pair c)"
  using assms
proof (induction qs arbitrary: E n as)
  case (Cons iq qs)
  let ?C = "client_ops (served_net cfg B junk now seg) junk"
  obtain i q where iq: "iq = (i, q)" by (cases iq)
  let ?p = "\<lparr>penv = E i, env_nomem = False, world = n\<rparr>"
  obtain a p' where a: "do_request ?C ?p q = (a, p')" by (metis prod.exhaust)
  obtain as' where as': "session ?C (E(i := penv p')) (world p') qs = (as', E', n')" "as = a # as'"
    using Cons.prems(4) a iq by (auto split: prod.splits)
  have "good_request good_key q" "penv ?p = Map.empty" using Cons.prems(2,3) iq by simp_all
  from request_told [OF _ this a, of i] Cons.prems(1)
  have p': "served_ok opened (world p')" "penv p' = Map.empty" "told (fst n) (fst (world p')) (changes [((i, q), a)])"
    "\<forall>c \<in> set (changes [((i, q), a)]). list_pair c" by simp_all
  have IH: "told (fst (world p')) (fst n') (changes (zip qs as')) \<and> (\<forall>c \<in> set (changes (zip qs as')). list_pair c)"
    by (rule Cons.IH [OF p'(1) _ _ as'(1)]) (use Cons.prems(2,3) p'(2) in simp_all)
  have "changes (zip (iq # qs) as) = changes [((i, q), a)] @ changes (zip qs as')"
    unfolding iq as'(2) zip_Cons_Cons by (rule changes_Cons)
  with told_trans [OF p'(3), of "fst n'" "changes (zip qs as')"] IH p'(4) show ?case by auto
qed (simp add: told_refl)

end

section \<open>Reading the notifications\<close>

text \<open>\<open>c\<close> calls of \<open>property_monitor_read\<close> with a buffer of \<open>sz\<close> bytes, and what is then left of the stream.\<close>

fun monitor_reads :: "nat \<Rightarrow> cmem \<Rightarrow> nat \<Rightarrow> netev list \<Rightarrow> (int \<times> string \<times> string) list \<times> netev list" where
  "monitor_reads 0 junk sz rx = ([], rx)"
| "monitor_reads (Suc c) junk sz rx =
     (case property_monitor_read True 0 junk rx True True sz of
        (a, rx) \<Rightarrow> (case monitor_reads c junk sz rx of (as, rx) \<Rightarrow> (a # as, rx)))"

lemma recv_safe_whole:
  assumes "b \<noteq> []"
  shows "recv_safe errno (Bytes b # rx) buf off (off + length b) =
    (int (off + length b), errno, mem_write buf off b, rx)"
  using assms by (subst recv_safe.simps, subst recv_safe.simps) simp

lemma monitor_read_whole:
  assumes "list_pair c" "length junk = PROP_MSG_MAX"
  shows "property_monitor_read True errno junk (Bytes (note_bytes c) # rx) True True sz =
    ((int (min sz (length (snd c))), fst c, take sz (snd c)), rx)"
proof -
  obtain k v where c: "c = (k, v)" by (cases c)
  let ?h = "[byte (Suc (length k)), byte (length v)]" and ?b = "k @ NUL # v"
  have kv: "good_name k" "cstring k" "\<not> PROP_NAME_MAX < Suc (length k)" "\<not> PROP_VALUE_MAX < length v"
    "strlcpy k PROP_NAME_MAX = k"
    using assms(1) by (auto simp: list_pair_def c good_name_def strlcpy_def)
  define M where "M = mem_write junk 0 ?h"
  define X where "X = mem_write M 2 ?b"
  have r: "recv 2 (Bytes (note_bytes c) # rx) = (Inr ?h, Bytes ?b # rx)"
    by (simp add: note_bytes_def c)
  have M: "M = ?h @ drop 2 junk" by (simp add: M_def mem_write_0 numeral_2_eq_2)
  have X: "X = ?h @ ?b @ drop (length ?b) (drop 2 junk)"
    using mem_write_prefix [of ?h "drop 2 junk" ?b] by (simp add: X_def M numeral_2_eq_2)
  have h: "ubyte (M ! 0) = Suc (length k)" "ubyte (M ! 1) = length v"
    using name_byte [OF kv(1)] kv(4) by (simp_all add: M kvdb_consts)
  have s: "recv_safe errno (Bytes ?b # rx) M 2 (Suc (length k) + length v + 2) =
      (int (Suc (length k) + length v + 2), errno, X, rx)"
    using recv_safe_whole [of ?b errno rx M 2] by (simp add: X_def add.commute add.left_commute)
  have d: "cstr (drop 2 X) = k" "drop (2 + Suc (length k)) X = v @ drop (length ?b) (drop 2 junk)"
    using kv(2) by (simp_all add: X)
  show ?thesis
    unfolding property_monitor_read_def r
    using h kv s d M_def [symmetric] by (simp add: c Let_def min_def)
qed

lemma monitor_reads_whole:
  assumes "\<forall>c \<in> set cs. list_pair c" "length junk = PROP_MSG_MAX"
  shows "monitor_reads (length cs) junk sz (map (\<lambda>c. Bytes (note_bytes c)) cs @ rx) =
    (map (\<lambda>c. (int (min sz (length (snd c))), fst c, take sz (snd c))) cs, rx)"
  using assms(1) by (induction cs) (simp_all add: monitor_read_whole assms(2))

section \<open>A watcher and a session\<close>

context kv_server
begin

lemma subscribe:
  assumes "served_ok opened n" "good_name pat"
  shows "\<exists>r n1. property_monitor_open (served_net cfg B junk now seg) n (Some pat) = Some (r, n1)"
  using served_monitor_open [of "fst n" "snd n", OF _ assms(2) junk seg, of cfg now] assms(1) by auto

theorem subscription:
  assumes ok: "served_ok opened n" and pat: "good_name pat"
    and op: "property_monitor_open (served_net cfg B junk now seg) n (Some pat) = Some (r, n1)"
    and qs: "list_all (\<lambda>iq. good_request good_key (snd iq)) qs" "\<And>i. E i = Map.empty"
    and run: "session (client_ops (served_net cfg B junk now seg) junk) E n1 qs = (as, E', n')"
    and cs: "cs = filter (\<lambda>c. fnmatch pat (fst c)) (changes (zip qs as))"
  shows "fst r = 3 \<and> monitor_reads (length cs) junk sz (snd r @ replies (fresh_fd (fst n)) (fst n1) (fst n')) =
    (map (\<lambda>c. (int (min sz (length (snd c))), fst c, take sz (snd c))) cs, [])"
proof -
  obtain s "next" where n: "n = (s, next)" by (cases n)
  from served_monitor_open [OF ok [unfolded n] pat junk seg, of cfg now] op obtain m where
    m: "r = (3, [])" "head (fst n1) = m # head s" "mon_fd m = fresh_fd s" "mon_key m = pat" "served_ok opened n1"
    by (auto simp: n)
  have "told (fst n1) (fst n') (changes (zip qs as)) \<and> (\<forall>c \<in> set (changes (zip qs as)). list_pair c)"
    by (rule session_told [OF m(5) qs run])
  with told_replies [of "fst n1" "fst n'" "changes (zip qs as)" m] m(2-4)
  have "replies (fresh_fd s) (fst n1) (fst n') = map (\<lambda>c. Bytes (note_bytes c)) cs" "\<forall>c \<in> set cs. list_pair c"
    by (simp_all add: cs)
  with monitor_reads_whole [of cs junk sz "[]"] junk m(1) n show ?thesis by simp
qed

end

end
