(* ===== verification/Sysprop.thy ===== *)
theory Sysprop
  imports Client Direct
begin

text \<open>
  The interface of \<open>sys/system_properties.h\<close>, implemented by \<open>kvdb/system_properties.c\<close> on the typed
  accessors: a process-wide serial number of 32 bits beside the process.
\<close>

section \<open>The operations\<close>

record 'w sysprop =
  sp_proc :: "'w proc"
  serial_num :: "32 word"

definition system_property_set ::
  "'w papi \<Rightarrow> 'w sysprop \<Rightarrow> string \<Rightarrow> string option \<Rightarrow> int \<times> 'w sysprop" where
  "system_property_set P s name val =
     (case property_set P (sp_proc s) name val of
        (ret, p) \<Rightarrow>
          (ret, if 0 \<le> ret then s\<lparr>sp_proc := p, serial_num := serial_num s + 1\<rparr> else s\<lparr>sp_proc := p\<rparr>))"

text \<open>A \<open>prop_info\<close> is a pointer to the name. The value pointer of the get is null.\<close>

definition system_property_find ::
  "'w papi \<Rightarrow> 'w sysprop \<Rightarrow> string \<Rightarrow> (fault + string option) \<times> 'w sysprop" where
  "system_property_find P s name =
     (case property_get P (sp_proc s) name None None of
        (Inl f, p) \<Rightarrow> (Inl f, s\<lparr>sp_proc := p\<rparr>)
      | (Inr (ret, _), p) \<Rightarrow> (Inr (if ret < 0 then None else Some name), s\<lparr>sp_proc := p\<rparr>))"

text \<open>\<open>callback\<close> says whether the function pointer is not null; the result is the call, if there is one.\<close>

definition system_property_read_callback ::
  "'w papi \<Rightarrow> 'w sysprop \<Rightarrow> string \<Rightarrow> bool \<Rightarrow>
   (fault + (string \<times> string \<times> 32 word) option) \<times> 'w sysprop" where
  "system_property_read_callback P s pi callback =
     (if \<not> callback then (Inr None, s)
      else (case property_get P (sp_proc s) pi (Some PROP_VALUE_MAX) None of
              (Inl f, p) \<Rightarrow> (Inl f, s\<lparr>sp_proc := p\<rparr>)
            | (Inr (ret, v), p) \<Rightarrow>
                (Inr (if ret < 0 then None else Some (pi, v, serial_num s)), s\<lparr>sp_proc := p\<rparr>)))"

definition system_property_foreach_callback :: "string \<times> string \<Rightarrow> string" where
  "system_property_foreach_callback kv = fst kv"

definition system_property_foreach ::
  "(string \<Rightarrow> string \<Rightarrow> nat) \<Rightarrow> 'w papi \<Rightarrow> 'w sysprop \<Rightarrow> (fault + int \<times> string list) \<times> 'w sysprop" where
  "system_property_foreach room P s =
     (case property_list room P (sp_proc s) of
        (Inl f, p) \<Rightarrow> (Inl f, s\<lparr>sp_proc := p\<rparr>)
      | (Inr (ret, calls), p) \<Rightarrow> (Inr (ret, map system_property_foreach_callback calls), s\<lparr>sp_proc := p\<rparr>))"

text \<open>
  The timeout in milliseconds, as an \<open>int\<close>. \<open>pollres\<close> is the result of \<open>poll\<close> for a timeout, \<open>arrived\<close> what has
  arrived on the channel. The new serial number is stored when its pointer is not null.
\<close>

definition timeout_ms :: "int \<Rightarrow> int \<Rightarrow> int" where
  "timeout_ms tv_sec tv_nsec = sint (word_of_int (tv_sec * 1000 + tv_nsec div 1000000) :: 32 word)"

definition system_property_wait ::
  "'n net \<Rightarrow> cmem \<Rightarrow> 'n sysprop \<Rightarrow> (int \<Rightarrow> int \<times> bool) \<Rightarrow> netev list \<Rightarrow> string option \<Rightarrow> bool \<Rightarrow> int \<times> int \<Rightarrow>
   ((bool \<times> 32 word option) \<times> 'n sysprop) option" where
  "system_property_wait N junk s pollres arrived pi new_serial timeout =
     Option.bind
       (property_wait N junk (world (sp_proc s)) (pollres (timeout_ms (fst timeout) (snd timeout))) arrived
          (Some (case pi of None \<Rightarrow> ''*'' | Some k \<Rightarrow> k)) False False 0)
       (\<lambda>((ret, _), n).
          Some (if 0 \<le> ret then (True, if new_serial then Some (serial_num s) else None) else (False, None),
                s\<lparr>sp_proc := (sp_proc s)\<lparr>world := n\<rparr>\<rparr>))"

definition system_property_read ::
  "'w papi \<Rightarrow> 'w sysprop \<Rightarrow> string \<Rightarrow> nat \<Rightarrow> (fault + string \<times> int \<times> string) \<times> 'w sysprop" where
  "system_property_read P s pi cap =
     (let name = strlcpy pi PROP_NAME_MAX
      in case property_get P (sp_proc s) name (Some cap) None of
           (Inl f, p) \<Rightarrow> (Inl f, s\<lparr>sp_proc := p\<rparr>)
         | (Inr (ret, v), p) \<Rightarrow> (Inr (name, ret, v), s\<lparr>sp_proc := p\<rparr>))"

definition system_property_get ::
  "'w papi \<Rightarrow> 'w sysprop \<Rightarrow> string \<Rightarrow> nat \<Rightarrow> (fault + int \<times> string) \<times> 'w sysprop" where
  "system_property_get P s name cap =
     (case property_get P (sp_proc s) name (Some cap) None of (r, p) \<Rightarrow> (r, s\<lparr>sp_proc := p\<rparr>))"

section \<open>The serial number\<close>

text \<open>The results and the last state of a sequence of sets.\<close>

fun set_all :: "'w papi \<Rightarrow> 'w sysprop \<Rightarrow> (string \<times> string option) list \<Rightarrow> int list \<times> 'w sysprop" where
  "set_all P s [] = ([], s)"
| "set_all P s ((k, v) # kvs) =
     (case system_property_set P s k v of
        (r, s) \<Rightarrow> (case set_all P s kvs of (rs, s) \<Rightarrow> (r # rs, s)))"

lemma set_all_serial:
  "set_all P s kvs = (rs, s') \<Longrightarrow>
   serial_num s' = serial_num s + of_nat (length (filter (\<lambda>r. 0 \<le> r) rs)) \<and> length rs = length kvs"
proof (induction P s kvs arbitrary: rs s' rule: set_all.induct)
  case (2 P s k v kvs)
  obtain r s1 where a: "system_property_set P s k v = (r, s1)" by (cases "system_property_set P s k v")
  obtain rs1 s2 where b: "set_all P s1 kvs = (rs1, s2)" by (cases "set_all P s1 kvs")
  from a have s1: "serial_num s1 = serial_num s + (if 0 \<le> r then 1 else 0)"
    by (auto simp: system_property_set_def split: prod.splits if_splits)
  from "2.prems" a b have "rs = r # rs1" "s' = s2" by auto
  with "2.IH" [OF a [symmetric] b] s1 show ?case by (simp add: algebra_simps)
qed simp

section \<open>Reading what was set\<close>

context property_store
begin

lemma read_callback_after_set:
  assumes "ok (world (sp_proc s))" "good_key k" "cstring v" "length v < PROP_VALUE_MAX" "sync False"
    and "system_property_set P s k (Some v) = (r, s1)" "0 \<le> r"
  shows "fst (system_property_read_callback P s1 k True) = Inr (Some (k, v, serial_num s + 1))"
proof -
  obtain p1 where p1: "property_set_ow P (sp_proc s) k (Some v) False = (r, p1)"
    and s1: "s1 = s\<lparr>sp_proc := p1, serial_num := serial_num s + 1\<rparr>"
    using assms(6,7) by (auto simp: system_property_set_def property_set_def split: prod.splits if_splits)
  have "fst (property_get P p1 k (Some PROP_VALUE_MAX) None) = Inr (int (length v), v)"
    by (rule set_get [OF assms(1-4) p1 assms(7,5)])
  then show ?thesis
    by (cases "property_get P p1 k (Some PROP_VALUE_MAX) None") (simp add: system_property_read_callback_def s1)
qed

end

section \<open>Finding a property\<close>

text \<open>
  A null value pointer makes the file backend refuse the get, so that nothing is found; a backend that
  answers the existence test makes \<open>property_get\<close> write through the null pointer.
\<close>

lemma direct_get_null:
  assumes "penv p k = None" "direct_get_binary B (world p) (Some k) False PROP_VALUE_MAX = ((r, d), w)"
  shows "property_get (direct_api B) p k None None =
    (if r \<le> 0 then Inr (- EINVAL, []) else Inl NullDeref, p\<lparr>world := w\<rparr>)"
  using assms by (simp add: property_get_def direct_api_def)

lemma file_find_nothing:
  assumes "file_good_key cfg k" "penv (sp_proc s) k = None"
  shows "fst (system_property_find (direct_api (file_backend cfg)) s k) = Inr None"
proof -
  have "direct_get_binary (file_backend cfg) (world (sp_proc s)) (Some k) False PROP_VALUE_MAX =
      ((- EINVAL, []), world (sp_proc s))"
    using fb.direct_get_good [OF assms(1), of "world (sp_proc s)" False PROP_VALUE_MAX]
    by (simp add: file_backend_def file_kvdb_init_def file_kvdb_uninit_def file_kvdb_get_def errno_defs)
  from direct_get_null [OF assms(2) this] show ?thesis
    by (simp add: system_property_find_def errno_defs)
qed

context unqlite_steady
begin

lemma unq_find_faults:
  assumes "unq_idle cfg recs (world (sp_proc s))" "unq_good_key k" "penv (sp_proc s) k = None"
    and "unq_view cfg recs (world (sp_proc s)) k = Some v" "v \<noteq> []"
  shows "fst (system_property_find (direct_api (unq_backend cfg U)) s k) = Inl NullDeref"
proof -
  let ?B = "unq_backend cfg U" and ?w = "world (sp_proc s)"
  obtain r1 w1 where i: "kvdb_init ?B ?w = (r1, w1)" by (cases "kvdb_init ?B ?w")
  have r1: "0 \<le> r1" using init_ok [OF assms(1)] i by simp
  have w1: "unq_opened cfg recs w1" "unq_view cfg recs w1 k = Some v"
    using init_law [OF assms(1) i] r1 assms(4) by auto
  obtain r2 d w2 where g: "kvdb_get ?B w1 (Some (k @ NUL # [])) (Suc (length k)) False PROP_VALUE_MAX = ((r2, d), w2)"
    by (metis prod.exhaust)
  have "0 < r2" using get_exists [OF w1(1) assms(2) w1(2) assms(5), of "[]" PROP_VALUE_MAX] g by simp
  moreover have "direct_get_binary ?B ?w (Some k) False PROP_VALUE_MAX = ((r2, d), kvdb_uninit ?B w2)"
    using direct_get_good [OF assms(2), of ?w False PROP_VALUE_MAX] i r1 g by simp
  from direct_get_null [OF assms(3) this] calculation show ?thesis
    by (simp add: system_property_find_def)
qed

end

section \<open>Listing with strings\<close>

text \<open>
  Of the stores that a process links directly, the arrays of the file backend and of non-volatile storage
  have room for the terminator of every value below the limit; the memory of the UnQLite engine does not,
  so that the first property that is listed is terminated outside its memory.
\<close>

lemma direct_array_list:
  assumes "direct_list_binary B (world p) = ((r, calls), w)" "room \<in> {file_list_room, nvs_list_room}"
    and "\<forall>(k, v) \<in> set calls. length v < PROP_VALUE_MAX"
  shows "property_list room (direct_api B) p = (Inr (r, map (\<lambda>(k, v). (k, cstr (v @ [NUL]))) calls), p\<lparr>world := w\<rparr>)"
  by (rule property_list_ok) (use assms in \<open>auto simp: direct_api_def file_list_room_def nvs_list_room_def\<close>)

lemma direct_unq_list_faults:
  assumes "direct_list_binary B (world p) = ((r, c # calls), w)"
  shows "property_list unq_list_room (direct_api B) p = (Inl OutOfBounds, p\<lparr>world := w\<rparr>)"
  by (rule property_list_fault [of _ _ r "c # calls" _ "fst c" "snd c"])
     (simp_all add: direct_api_def unq_list_room_def assms)

text \<open>Through the server the existence test asks for one byte, and any answer ends at the null pointer.\<close>

lemma client_get_null:
  assumes "cstring k" "length k < PROP_NAME_MAX" "penv p k = None"
    and "property_connect N (world p) = Some (fd, n1)" "0 \<le> fd"
    and "n_send N n1 (get_request k PROP_VALUE_MAX) = ((q, Bytes b # rx), n2)" "0 \<le> q" "b \<noteq> []"
  shows "property_get (client_api N junk) p k None None = (Inl NullDeref, p\<lparr>world := n2\<rparr>)"
  using assms by (cases b) (simp_all add: property_get_def client_api_def client_get_binary_def)

end
