(* ===== verification/Tools.thy ===== *)
theory Tools
  imports Common Net Direct
begin

text \<open>
  The command line tools \<open>kvdb/getprop.c\<close> and \<open>kvdb/setprop.c\<close>, and \<open>kvdb/qemu_properties.c\<close>, which copies the
  boot properties of an emulator into the store. Output is the text written to standard output.
\<close>

section \<open>getprop\<close>

definition newline :: string where "newline = [CHR 0x0A]"

text \<open>
  The byte that \<open>printf("%02x", c)\<close> prints: \<open>char_signed\<close> says whether the type \<open>char\<close> is signed, in which case a
  byte from 128 on is widened with ones.
\<close>

definition hex_byte :: "bool \<Rightarrow> char \<Rightarrow> string" where
  "hex_byte char_signed c =
     pad_hex 2 (if char_signed \<and> 128 \<le> ubyte c then 2 ^ 32 - 256 + ubyte c else ubyte c)"

text \<open>
  \<open>callback\<close>: a value whose bytes are printable up to a terminator in its last place is printed as a
  string, any other one in hexadecimal. The length minus one is an unsigned number.
\<close>

definition getprop_callback :: "bool \<Rightarrow> string option \<Rightarrow> string \<Rightarrow> string" where
  "getprop_callback char_signed name val =
     (let i = length (takeWhile isprint val)
      in (case name of None \<Rightarrow> [] | Some n \<Rightarrow> n @ '': '') @
         (if val \<noteq> [] \<and> i = length val - 1 \<and> val ! i = NUL then cstr val @ newline
          else concat (map (hex_byte char_signed) val) @ newline))"

definition is_help :: "string \<Rightarrow> bool" where
  "is_help arg \<longleftrightarrow> strncmp_eq (mem_of arg) (mem_of ''-h'') 3"

text \<open>\<open>main\<close>: the exit code and the output. The first argument is the name of the program.\<close>

definition getprop_main ::
  "config \<Rightarrow> bool \<Rightarrow> 'w papi \<Rightarrow> 'w \<Rightarrow> string list \<Rightarrow> (int \<times> string) \<times> 'w" where
  "getprop_main cfg char_signed P w argv =
     (if length argv = 2 \<and> \<not> is_help (argv ! 1) then
        (case property_get_binary P w (Some (argv ! 1)) True PROP_VALUE_MAX of
           ((len, d), w) \<Rightarrow>
             if len < 0 then ((len, []), w)
             else ((0, getprop_callback char_signed None (take (nat len) d)), w))
      else if CONFIG_KVDB_DUMPLIST cfg \<and> length argv = 1 then
        (case property_list_binary P w of
           ((r, calls), w) \<Rightarrow> ((- r, concat (map (\<lambda>(k, v). getprop_callback char_signed (Some k) v) calls)), w))
      else ((0, ''Usage: '' @ argv ! 0 @ '' [key]'' @ newline), w))"

section \<open>setprop\<close>

text \<open>
  \<open>del\<close> and \<open>commit\<close> are the functions \<open>property_delete\<close> and \<open>property_commit\<close> the tool is linked with, \<open>strerror\<close>
  the message of an error number. A wrong use commits as well.
\<close>

definition setprop_main ::
  "'w papi \<Rightarrow> ('w proc \<Rightarrow> string option \<Rightarrow> int \<times> 'w proc) \<Rightarrow> ('w proc \<Rightarrow> int \<times> 'w proc) \<Rightarrow> (int \<Rightarrow> string) \<Rightarrow>
   'w proc \<Rightarrow> string list \<Rightarrow> (int \<times> string) \<times> 'w proc" where
  "setprop_main P del commit strerror p argv =
     (case (if length argv = 3 then
              (case property_set P p (argv ! 1) (Some (argv ! 2)) of (r, p) \<Rightarrow> (- r, [], p))
            else if length argv = 2 \<and> \<not> is_help (argv ! 1) then
              (case del p (Some (argv ! 1)) of (r, p) \<Rightarrow> (- r, [], p))
            else (0, ''Usage: '' @ argv ! 0 @ '' <key> [value]'' @ newline, p)) of
        (ret, out, p) \<Rightarrow>
          if 0 < ret then ((ret, out @ ''Error: '' @ strerror ret @ newline), p)
          else (case commit p of
                  (r, p) \<Rightarrow>
                    ((- r, out @ (if 0 < - r then ''Error: commit '' @ strerror (- r) @ newline else [])), p)))"

section \<open>Setting and reading back on the command line\<close>

lemma print_value:
  assumes "cstring v" "\<forall>c \<in> set v. isprint c"
  shows "getprop_callback cs None (mem_of v) = v @ newline"
proof -
  have "takeWhile isprint (v @ [NUL]) = v"
    using assms(2) by (intro takeWhile_append_stop) (auto simp: isprint_def)
  with assms(1) show ?thesis by (simp add: getprop_callback_def mem_of_def nth_append)
qed

lemma is_help_iff: "cstring k \<Longrightarrow> is_help k \<longleftrightarrow> k = ''-h''"
  using strncmp_eq_whole [of "''-h''" "mem_of k"] by (simp add: is_help_def mem_of_def numeral_3_eq_3 eq_commute)

context property_store
begin

lemma setprop_getprop:
  assumes ok: "ok (world p)" "good_key k" "cstring k" "cstring v" "\<forall>c \<in> set v. isprint c" "sync False"
    and env: "penv p k = None" and k: "k \<noteq> ''-h''"
    and set: "property_set P p k (Some v) = (r, p1)" "0 \<le> r" and commit: "commit p1 = (0, p2)" "world p2 = world p1"
  shows "setprop_main P del commit strerror p [a, k, v] = ((0, []), p2) \<and>
    fst (getprop_main cfg cs P (world p2) [b, k]) = (0, v @ newline)"
proof
  show "setprop_main P del commit strerror p [a, k, v] = ((0, []), p2)"
    using set commit by (simp add: setprop_main_def)
  note st = set_ow_store [OF ok(1,2,4) env set [unfolded property_set_def] ok(6)]
  obtain r2 d w2 where g: "property_get_binary P (world p1) (Some k) True PROP_VALUE_MAX = ((r2, d), w2)"
    by (metis prod.exhaust)
  have "r2 = int (length (mem_of v)) \<and> d = mem_of v"
    using get_law [OF _ ok(2) g] st by (auto simp: mem_of_def)
  with g print_value [OF ok(4,5)] is_help_iff [OF ok(3)] k commit(2)
  show "fst (getprop_main cfg cs P (world p2) [b, k]) = (0, v @ newline)"
    by (simp add: getprop_main_def)
qed

end

section \<open>The emulator's boot properties\<close>

definition MAX_TRIES :: int where "MAX_TRIES = 5"

definition BUFF_SIZE :: nat where [kvdb_consts]: "BUFF_SIZE = PROP_NAME_MAX + PROP_VALUE_MAX + 2"

text \<open>
  The process with the pipe: the results of the coming \<open>open\<close> and \<open>write\<close> calls, what was written, what can be
  read, the error number, and the seconds it has slept.
\<close>

record 'w qemu =
  q_proc :: "'w proc"
  q_sys :: "sysres list"
  q_wrote :: "string list"
  q_rx :: "netev list"
  q_errno :: int
  q_slept :: nat

definition q_call :: "'w qemu \<Rightarrow> bool \<times> 'w qemu" where
  "q_call q = (case sys_next (q_sys q) of
     (Fail e, rs) \<Rightarrow> (False, q\<lparr>q_sys := rs, q_errno := e\<rparr>) | (_, rs) \<Rightarrow> (True, q\<lparr>q_sys := rs\<rparr>))"

definition q_write :: "'w qemu \<Rightarrow> string \<Rightarrow> bool \<times> 'w qemu" where
  "q_write q s = (case q_call q of (b, q) \<Rightarrow> (b, if b then q\<lparr>q_wrote := q_wrote q @ [s]\<rparr> else q))"

text \<open>The descriptor of the pipe is any number; 3 here.\<close>

definition qemu_pipe_open_ns :: "'w qemu \<Rightarrow> string option \<Rightarrow> string \<Rightarrow> int \<times> 'w qemu" where
  "qemu_pipe_open_ns q ns pipe_name =
     (case q_call q of
        (False, q) \<Rightarrow> (- q_errno q, q)
      | (True, q) \<Rightarrow>
          (let buf = snprintf PATH_MAX
                 (case ns of Some ns \<Rightarrow> ''pipe:'' @ ns @ '':'' @ pipe_name | None \<Rightarrow> ''pipe:'' @ pipe_name)
           in case q_write q (mem_of buf) of
                (False, q) \<Rightarrow> (- q_errno q, q)
              | (True, q) \<Rightarrow> (3, q)))"

definition qemud_channel_send :: "'w qemu \<Rightarrow> cmem \<Rightarrow> int \<Rightarrow> int \<times> 'w qemu" where
  "qemud_channel_send q msg sz =
     (let sz = (if sz < 0 then int (strlen msg) else sz)
      in if sz = 0 then (0, q)
         else (case q_write q (snprintf 5 (pad_hex 4 (nat sz))) of
                 (False, q) \<Rightarrow> (- q_errno q, q)
               | (True, q) \<Rightarrow>
                   (case q_write q (take (nat sz) msg) of
                      (False, q) \<Rightarrow> (- q_errno q, q)
                    | (True, q) \<Rightarrow> (sz, q))))"

text \<open>
  Receiving: \<open>header\<close> and \<open>msg\<close> are the memory of the two buffers before the call. A negative size passes the
  test and is a huge number for \<open>read\<close>, which then stores all that arrives. A size that cannot be read or
  is too large returns whatever error number is left.
\<close>

definition qemud_channel_recv ::
  "'w qemu \<Rightarrow> cmem \<Rightarrow> cmem \<Rightarrow> int \<Rightarrow> fault + (int \<times> cmem) \<times> 'w qemu" where
  "qemud_channel_recv q header msg maxsize =
     (case recv 4 (q_rx q) of
        (Inl e, rx) \<Rightarrow> Inr ((- e, msg), q\<lparr>q_rx := rx, q_errno := e\<rparr>)
      | (Inr h, rx) \<Rightarrow>
          (let q = q\<lparr>q_rx := rx\<rparr>; header = mem_write header 0 h
           in case scan_hex 4 (cstr (take 4 header @ [NUL])) of
                None \<Rightarrow> Inr ((- q_errno q, msg), q)
              | Some sz \<Rightarrow>
                  if maxsize < sz then Inr ((- q_errno q, msg), q)
                  else (case recv (if sz < 0 then 2 ^ 32 - nat (- sz) else nat sz) (q_rx q) of
                          (Inl e, rx) \<Rightarrow> Inr ((- e, msg), q\<lparr>q_rx := rx, q_errno := e\<rparr>)
                        | (Inr d, rx) \<Rightarrow>
                            if length msg < length d then Inl OutOfBounds
                            else Inr ((sz, mem_write msg 0 d), q\<lparr>q_rx := rx\<rparr>))))"

text \<open>
  The loop over the properties. \<open>stack n\<close> is the content of the two buffers at the start of round \<open>n\<close>, which
  the program does not initialise. The loop may never end, so it returns an option.
\<close>

partial_function (option) qemu_loop ::
  "'w papi \<Rightarrow> (nat \<Rightarrow> cmem \<times> cmem) \<Rightarrow> nat \<Rightarrow> 'w qemu \<Rightarrow> (fault + 'w qemu) option" where
  "qemu_loop api stack n q =
     (case qemud_channel_recv q (fst (stack n)) (snd (stack n)) (int BUFF_SIZE - 1) of
        Inl f \<Rightarrow> Some (Inl f)
      | Inr ((len, temp), q) \<Rightarrow>
          if len < 0 \<or> int BUFF_SIZE - 1 < len \<or> temp ! 0 = NUL then Some (Inr q)
          else (let temp = temp[nat len := NUL]; key = takeWhile (\<lambda>c. c \<noteq> CHR ''='') (cstr temp)
                in if CHR ''='' \<notin> set (cstr temp) then qemu_loop api stack (Suc n) q
                   else qemu_loop api stack (Suc n)
                     (q\<lparr>q_proc := snd (property_set api (q_proc q) key (Some (drop (Suc (length key)) (cstr temp))))\<rparr>)))"

text \<open>The attempts to connect, one second apart; the result is the exit code when they fail.\<close>

function qemu_connect :: "'w qemu \<Rightarrow> int \<Rightarrow> bool \<times> 'w qemu" where
  "qemu_connect q tries =
     (case qemu_pipe_open_ns q (Some ''qemud'') ''boot-properties'' of
        (fd, q) \<Rightarrow>
          if 0 \<le> fd then (True, q)
          else if tries - 1 \<le> 0 then (False, q)
          else qemu_connect (q\<lparr>q_slept := Suc (q_slept q)\<rparr>) (tries - 1))"
  by pat_completeness auto
termination
  by (relation "measure (\<lambda>(q, tries). nat tries)") auto

declare qemu_connect.simps [simp del]

definition qemu_main ::
  "'w papi \<Rightarrow> (nat \<Rightarrow> cmem \<times> cmem) \<Rightarrow> 'w qemu \<Rightarrow> (fault + int \<times> 'w qemu) option" where
  "qemu_main P stack q =
     (case qemu_connect q MAX_TRIES of
        (False, q) \<Rightarrow> Some (Inr (1, q))
      | (True, q) \<Rightarrow>
          (case qemud_channel_send q (mem_of ''list'') (- 1) of
             (r, q) \<Rightarrow>
               if r < 0 then Some (Inr (1, q))
               else map_option (\<lambda>res. case res of Inl f \<Rightarrow> Inl f | Inr q \<Rightarrow> Inr (0, q)) (qemu_loop P stack 0 q)))"

section \<open>What the emulator sends is what is set\<close>

text \<open>The stream of the service: each property with its length, and a lone zero byte at the end.\<close>

definition qemu_message :: "string \<Rightarrow> netev list" where
  "qemu_message s = [Bytes (pad_hex 4 (length s)), Bytes s]"

definition qemu_stream :: "(string \<times> string) list \<Rightarrow> netev list" where
  "qemu_stream es = concat (map (\<lambda>(k, v). qemu_message (k @ ''='' @ v)) es) @ qemu_message [NUL]"

definition qemu_entry :: "string \<times> string \<Rightarrow> bool" where
  "qemu_entry e = (case e of (k, v) \<Rightarrow>
     cstring k \<and> cstring v \<and> CHR ''='' \<notin> set k \<and> length k + length v + 1 < BUFF_SIZE)"

lemma recv_whole: "recv (length b) (Bytes b # rx) = (Inr b, rx)"
  by simp

lemma qemu_recv_message:
  assumes "q_rx q = qemu_message s @ rx" "length s < BUFF_SIZE" "length header = 5" "length msg = BUFF_SIZE"
  shows "qemud_channel_recv q header msg (int BUFF_SIZE - 1) =
    Inr ((int (length s), s @ drop (length s) msg), q\<lparr>q_rx := rx\<rparr>)"
proof -
  have n: "length s < 16 ^ 4" using assms(2) by (simp add: kvdb_consts)
  note h = scan_pad_hex(1) [OF n, of "[]"] scan_pad_hex(2,3) [OF n]
  have "recv 4 (q_rx q) = (Inr (pad_hex 4 (length s)), Bytes s # rx)"
    using recv_whole [of "pad_hex 4 (length s)" "Bytes s # rx"] assms(1) h(2) by (simp add: qemu_message_def)
  moreover have "take 4 (mem_write header 0 (pad_hex 4 (length s))) = pad_hex 4 (length s)"
    by (simp add: mem_write_0 h(2))
  moreover have "cstr (pad_hex 4 (length s) @ [NUL]) = pad_hex 4 (length s)"
    using h(3) by (simp add: cstring_def)
  ultimately show ?thesis
    using assms h(1) by (simp add: qemud_channel_recv_def mem_write_0 Let_def)
qed

lemma terminate_at:
  assumes "length s < length t"
  shows "(s @ drop (length s) t)[length s := x] = s @ x # drop (Suc (length s)) t"
  using Cons_nth_drop_Suc [OF assms] by (metis list_update_length)

lemma qemu_loop_stream:
  assumes "\<And>n. length (fst (stack n)) = 5 \<and> length (snd (stack n)) = BUFF_SIZE"
  shows "\<forall>e \<in> set es. qemu_entry e \<Longrightarrow> q_rx q = qemu_stream es @ rx \<Longrightarrow>
    qemu_loop P stack n q = Some (Inr (q\<lparr>q_rx := rx,
      q_proc := fold (\<lambda>(k, v) p. snd (property_set P p k (Some v))) es (q_proc q)\<rparr>))"
proof (induction es arbitrary: n q)
  case Nil
  have "q_rx q = qemu_message [NUL] @ rx" using Nil by (simp add: qemu_stream_def)
  from qemu_recv_message [OF this, of "fst (stack n)" "snd (stack n)"] assms [of n] show ?case
    by (subst qemu_loop.simps) (simp add: kvdb_consts)
next
  case (Cons e es)
  obtain k v where e: "e = (k, v)" by (cases e)
  define m where "m = k @ ''='' @ v"
  let ?t = "snd (stack n)"
  from Cons.prems(1) have k: "cstring k" "cstring v" "CHR ''='' \<notin> set k" and len: "length m < BUFF_SIZE"
    by (auto simp: qemu_entry_def e m_def)
  have "q_rx q = qemu_message m @ qemu_stream es @ rx"
    using Cons.prems(2) by (simp add: qemu_stream_def e m_def)
  note r = qemu_recv_message [OF this len, of "fst (stack n)" ?t]
  have upd: "(m @ drop (length m) ?t)[length m := NUL] = m @ NUL # drop (Suc (length m)) ?t"
    by (rule terminate_at) (use assms [of n] len in simp)
  have "cstring m" using k by (simp add: m_def)
  then have cm: "cstr (m @ NUL # x) = m" for x by simp
  have m: "(m @ x) ! 0 \<noteq> NUL" "CHR ''='' \<in> set m" "drop (Suc (length k)) m = v" for x
    using k by (cases k; simp add: m_def)+
  have "takeWhile (\<lambda>c. c \<noteq> CHR ''='') (k @ CHR ''='' # v) = k"
    by (rule takeWhile_append_stop) (use k(3) in auto)
  then have tw: "takeWhile (\<lambda>c. c \<noteq> CHR ''='') m = k" by (simp add: m_def)
  define q1 where "q1 = q\<lparr>q_rx := qemu_stream es @ rx\<rparr>"
  define q2 where "q2 = q1\<lparr>q_proc := snd (property_set P (q_proc q1) k (Some v))\<rparr>"
  have "qemu_loop P stack n q = qemu_loop P stack (Suc n) q2"
    by (subst qemu_loop.simps) (use r assms [of n] len m cm upd tw in \<open>simp add: q1_def q2_def Let_def\<close>)
  also have "\<dots> = Some (Inr (q2\<lparr>q_rx := rx,
      q_proc := fold (\<lambda>(k, v) p. snd (property_set P p k (Some v))) es (q_proc q2)\<rparr>))"
    by (rule Cons.IH) (use Cons.prems(1) in \<open>auto simp: q2_def q1_def\<close>)
  finally show ?case by (simp add: e q2_def q1_def)
qed

text \<open>The wait for the service is at most four seconds.\<close>

lemma q_call_slept: "q_call q = (b, q') \<Longrightarrow> q_slept q' = q_slept q"
  by (auto simp: q_call_def split: prod.splits sysres.splits)

lemma qemu_pipe_open_slept: "qemu_pipe_open_ns q ns name = (fd, q') \<Longrightarrow> q_slept q' = q_slept q"
  by (auto simp: qemu_pipe_open_ns_def q_write_def Let_def split: prod.splits bool.splits if_splits dest!: q_call_slept)

lemma qemu_connect_bound:
  "0 < tries \<Longrightarrow> int (q_slept (snd (qemu_connect q tries))) \<le> int (q_slept q) + tries - 1"
proof (induction q tries rule: qemu_connect.induct)
  case (1 q tries)
  obtain fd q1 where o: "qemu_pipe_open_ns q (Some ''qemud'') ''boot-properties'' = (fd, q1)"
    by (cases "qemu_pipe_open_ns q (Some ''qemud'') ''boot-properties''")
  note slept = qemu_pipe_open_slept [OF o]
  show ?case
  proof (cases "0 \<le> fd \<or> tries - 1 \<le> 0")
    case True
    then show ?thesis using o slept "1.prems" by (auto simp: qemu_connect.simps [of q])
  next
    case False
    with "1.IH" [OF o [symmetric]] slept o show ?thesis by (simp add: qemu_connect.simps [of q])
  qed
qed

text \<open>
  At the end of the stream the buffers keep what they held, and a program whose stack holds a former
  message goes on with it forever.
\<close>

lemma qemu_loop_eof:
  assumes "q_rx q = []" "\<And>n. stack n = (''0003'' @ [NUL], ''a=b'' @ replicate (BUFF_SIZE - 3) NUL)"
  shows "qemu_loop P stack n q = None"
proof (rule ccontr)
  assume "qemu_loop P stack n q \<noteq> None"
  then obtain r where r: "qemu_loop P stack n q = Some r" by auto
  have "q_rx q = [] \<and> (\<forall>n. stack n = (''0003'' @ [NUL], ''a=b'' @ replicate (BUFF_SIZE - 3) NUL)) \<longrightarrow> False"
  proof (rule qemu_loop.raw_induct [where P = "\<lambda>P stack n q r. q_rx q = [] \<and>
      (\<forall>n. stack n = (''0003'' @ [NUL], ''a=b'' @ replicate (BUFF_SIZE - 3) NUL)) \<longrightarrow> False", OF _ r], intro impI, elim conjE)
    fix loop and P :: "'b papi" and stack n and q :: "'b qemu" and r
    assume IH: "\<And>P stack n q r. loop P stack n q = Some r \<Longrightarrow> q_rx q = [] \<and>
        (\<forall>n. stack n = (''0003'' @ [NUL], ''a=b'' @ replicate (BUFF_SIZE - 3) NUL)) \<longrightarrow> False"
      and run: "(case qemud_channel_recv q (fst (stack n)) (snd (stack n)) (int BUFF_SIZE - 1) of
          Inl f \<Rightarrow> Some (Inl f)
        | Inr ((len, temp), q) \<Rightarrow>
            if len < 0 \<or> int BUFF_SIZE - 1 < len \<or> temp ! 0 = NUL then Some (Inr q)
            else (let temp = temp[nat len := NUL]; key = takeWhile (\<lambda>c. c \<noteq> CHR ''='') (cstr temp)
                  in if CHR ''='' \<notin> set (cstr temp) then loop P stack (Suc n) q
                     else loop P stack (Suc n)
                       (q\<lparr>q_proc := snd (property_set P (q_proc q) key (Some (drop (Suc (length key)) (cstr temp))))\<rparr>))) = Some r"
      and e: "q_rx q = []" and st: "\<forall>n. stack n = (''0003'' @ [NUL], ''a=b'' @ replicate (BUFF_SIZE - 3) NUL)"
    have h: "scan_hex 4 ''0003'' = Some 3" by (simp add: scan_hex_def scan_sign_def digit_val_def ctype_defs)
    have s: "qemud_channel_recv q (fst (stack n)) (snd (stack n)) (int BUFF_SIZE - 1) =
        Inr ((3, snd (stack n)), q)"
      using e st h by (simp add: qemud_channel_recv_def kvdb_consts)
    from run s st have "\<exists>p. loop P stack (Suc n) (q\<lparr>q_proc := p\<rparr>) = Some r"
      by (auto simp: Let_def kvdb_consts)
    then obtain p where "loop P stack (Suc n) (q\<lparr>q_proc := p\<rparr>) = Some r" ..
    from IH [OF this] st e show False by simp
  qed
  with assms show False by blast
qed

text \<open>A size that is negative is no bound at all.\<close>

lemma qemu_recv_overflow:
  assumes "q_rx q = Bytes ''-001'' # Bytes d # rx" "length msg < length d" "length d < 2 ^ 31" "5 = length header"
  shows "qemud_channel_recv q header msg maxsize = Inl OutOfBounds \<or> maxsize < - 1"
proof -
  have "scan_hex 4 ''-001'' = Some (- 1)" by (simp add: scan_hex_def scan_sign_def digit_val_def ctype_defs)
  with assms show ?thesis by (simp add: qemud_channel_recv_def mem_write_0 Let_def)
qed

end
