(* ===== verification/Log.thy ===== *)
theory Log
  imports Libc
begin

text \<open>
  The Android log interface of \<open>include/android/log.h\<close>, implemented by \<open>log/log_write.c\<close> and
  \<open>log/set_abort_message.c\<close>: the priority filter in the environment, the pluggable logger and aborter,
  the formatting of a line. What the program writes is a list of log events.
\<close>

section \<open>Priorities and messages\<close>

definition ANDROID_LOG_UNKNOWN :: int where "ANDROID_LOG_UNKNOWN = 0"
definition ANDROID_LOG_DEFAULT :: int where "ANDROID_LOG_DEFAULT = 1"
definition ANDROID_LOG_VERBOSE :: int where "ANDROID_LOG_VERBOSE = 2"
definition ANDROID_LOG_DEBUG :: int where "ANDROID_LOG_DEBUG = 3"
definition ANDROID_LOG_INFO :: int where "ANDROID_LOG_INFO = 4"
definition ANDROID_LOG_WARN :: int where "ANDROID_LOG_WARN = 5"
definition ANDROID_LOG_ERROR :: int where "ANDROID_LOG_ERROR = 6"
definition ANDROID_LOG_FATAL :: int where "ANDROID_LOG_FATAL = 7"
definition ANDROID_LOG_SILENT :: int where "ANDROID_LOG_SILENT = 8"

lemmas log_prios = ANDROID_LOG_UNKNOWN_def ANDROID_LOG_DEFAULT_def ANDROID_LOG_VERBOSE_def
  ANDROID_LOG_DEBUG_def ANDROID_LOG_INFO_def ANDROID_LOG_WARN_def ANDROID_LOG_ERROR_def
  ANDROID_LOG_FATAL_def ANDROID_LOG_SILENT_def

definition LOG_ID_MAIN :: int where "LOG_ID_MAIN = 0"

definition LOG_BUF_SIZE :: nat where "LOG_BUF_SIZE = 256"

text \<open>The priorities of \<open>syslog.h\<close> by number: alert 1, critical 2, error 3, warning 4, info 6, debug 7.\<close>

definition g_logprimap :: "int list" where
  "g_logprimap = [7, 7, 7, 7, 6, 4, 3, 2, 7]"

definition log_characters :: string where
  "log_characters = ''XXVDIWEF'' @ [NUL]"

record log_message =
  buffer_id :: int
  priority :: int
  tag :: "string option"
  file_name :: "string option"
  line :: nat
  message :: string

text \<open>
  The logger and the aborter are function pointers: the library's own functions or functions of the
  program, which are told apart by a number and only recorded.
\<close>

datatype logger = Logd_Logger | Stderr_Logger | User_Logger nat

datatype aborter = Default_Aborter | User_Aborter nat

datatype logev = Syslog int string | Stderr string | User_Log nat log_message | User_Abort nat "string option"

record logs =
  g_logger :: logger
  g_aborter :: aborter
  log_env :: "string \<Rightarrow> string option"
  log_nomem :: bool
  progname :: string
  stamp :: string
  pid :: int
  gettid :: int
  written :: "logev list"

definition emit :: "logs \<Rightarrow> logev \<Rightarrow> logs" where
  "emit s e = s\<lparr>written := written s @ [e]\<rparr>"

text \<open>A null string argument of \<open>%s\<close> is printed as the C library of the target does.\<close>

definition str_arg :: "string option \<Rightarrow> string" where
  "str_arg s = (case s of None \<Rightarrow> ''(null)'' | Some t \<Rightarrow> t)"

text \<open>\<open>%5d\<close>\<close>

definition pad5 :: "int \<Rightarrow> string" where
  "pad5 i = replicate (5 - length (show_int i)) (CHR '' '') @ show_int i"

section \<open>The environment\<close>

definition log_get_default_tag :: "logs \<Rightarrow> string" where
  "log_get_default_tag s =
     (case log_env s ''ANDROID_LOG_DEFAULT_TAG'' of None \<Rightarrow> progname s | Some t \<Rightarrow> t)"

definition log_get_minimum_priority :: "logs \<Rightarrow> int" where
  "log_get_minimum_priority s =
     (case log_env s ''ANDROID_LOG_MIN_PRIORITY'' of None \<Rightarrow> ANDROID_LOG_DEFAULT | Some p \<Rightarrow> atoi p)"

definition log_setenv :: "logs \<Rightarrow> string \<Rightarrow> string \<Rightarrow> logs" where
  "log_setenv s k v = (if log_nomem s then s else s\<lparr>log_env := (log_env s)(k \<mapsto> v)\<rparr>)"

definition log_set_minimum_priority :: "logs \<Rightarrow> int \<Rightarrow> int \<times> logs" where
  "log_set_minimum_priority s prio =
     (let old = log_get_minimum_priority s;
          prio = (if ANDROID_LOG_SILENT < prio then ANDROID_LOG_FATAL else prio)
      in (old, log_setenv s ''ANDROID_LOG_MIN_PRIORITY'' (show_int prio)))"

definition log_set_default_tag :: "logs \<Rightarrow> string option \<Rightarrow> logs" where
  "log_set_default_tag s t = (case t of None \<Rightarrow> s | Some t \<Rightarrow> log_setenv s ''ANDROID_LOG_DEFAULT_TAG'' t)"

definition log_is_loggable :: "logs \<Rightarrow> int \<Rightarrow> string option \<Rightarrow> int \<Rightarrow> bool" where
  "log_is_loggable s prio t default_prio =
     (let m = log_get_minimum_priority s
      in if m \<noteq> ANDROID_LOG_DEFAULT then m \<le> prio else default_prio \<le> prio)"

definition log_is_loggable_len :: "logs \<Rightarrow> int \<Rightarrow> string option \<Rightarrow> nat \<Rightarrow> int \<Rightarrow> bool" where
  "log_is_loggable_len s prio t len default_prio = log_is_loggable s prio t default_prio"

section \<open>Loggers\<close>

definition set_abort_message :: "logs \<Rightarrow> string option \<Rightarrow> logs" where
  "set_abort_message s msg = emit s (Syslog 1 (''Abort Message: '' @ str_arg msg))"

text \<open>An index outside a table is a read out of bounds.\<close>

definition table_at :: "'a list \<Rightarrow> int \<Rightarrow> fault + 'a" where
  "table_at xs i = (if 0 \<le> i \<and> i < int (length xs) then Inr (xs ! nat i) else Inl OutOfBounds)"

definition clamp_prio :: "int \<Rightarrow> int" where
  "clamp_prio p = (if ANDROID_LOG_SILENT < p then ANDROID_LOG_FATAL else p)"

definition line_end :: string where "line_end = [CHR 0x0A]"

definition log_logd_logger :: "logs \<Rightarrow> log_message \<Rightarrow> fault + logs" where
  "log_logd_logger s m =
     (case table_at g_logprimap (clamp_prio (priority m)) of
        Inl f \<Rightarrow> Inl f
      | Inr p \<Rightarrow>
          Inr (emit s (Syslog p
            (case file_name m of
               Some f \<Rightarrow> ''['' @ str_arg (tag m) @ '' '' @ f @ '':'' @ show_nat (line m) @ ''] '' @ message m @ line_end
             | None \<Rightarrow> ''['' @ str_arg (tag m) @ ''] '' @ message m @ line_end))))"

definition log_stderr_logger :: "logs \<Rightarrow> log_message \<Rightarrow> fault + logs" where
  "log_stderr_logger s m =
     (if \<not> log_is_loggable s (priority m) None ANDROID_LOG_VERBOSE then Inr s
      else (case table_at log_characters (clamp_prio (priority m)) of
              Inl f \<Rightarrow> Inl f
            | Inr c \<Rightarrow>
                (let start = str_arg (tag m) @ '' '' @ [c] @ '' '' @ stamp s @ '' '' @ pad5 (pid s) @ '' '' @ pad5 (gettid s)
                 in Inr (emit s (Stderr
                      (case file_name m of
                         Some f \<Rightarrow> start @ '' '' @ f @ '':'' @ show_nat (line m) @ ''] '' @ message m @ line_end
                       | None \<Rightarrow> start @ ''] '' @ message m @ line_end))))))"

definition call_logger :: "logs \<Rightarrow> log_message \<Rightarrow> fault + logs" where
  "call_logger s m =
     (case g_logger s of
        Logd_Logger \<Rightarrow> log_logd_logger s m
      | Stderr_Logger \<Rightarrow> log_stderr_logger s m
      | User_Logger i \<Rightarrow> Inr (emit s (User_Log i m)))"

definition log_set_logger :: "logs \<Rightarrow> logger \<Rightarrow> logs" where
  "log_set_logger s l = s\<lparr>g_logger := l\<rparr>"

section \<open>Writing\<close>

definition log_write_log_message :: "logs \<Rightarrow> log_message \<Rightarrow> fault + logs" where
  "log_write_log_message s m =
     (let m = (if tag m = None then m\<lparr>tag := Some (log_get_default_tag s)\<rparr> else m);
          s = (if priority m = ANDROID_LOG_FATAL then set_abort_message s (Some (message m)) else s)
      in call_logger s m)"

definition log_message_of :: "int \<Rightarrow> int \<Rightarrow> string option \<Rightarrow> string \<Rightarrow> log_message" where
  "log_message_of bufID prio t text =
     \<lparr>buffer_id = bufID, priority = prio, tag = t, file_name = None, line = 0, message = text\<rparr>"

text \<open>\<open>text\<close> is the format expanded with its arguments.\<close>

definition log_write_log_message_buf :: "logs \<Rightarrow> int \<Rightarrow> int \<Rightarrow> string option \<Rightarrow> string \<Rightarrow> fault + logs" where
  "log_write_log_message_buf s bufID prio t text =
     log_write_log_message s (log_message_of bufID prio t (snprintf LOG_BUF_SIZE text))"

definition log_ret :: "int \<Rightarrow> fault + logs \<Rightarrow> fault + int \<times> logs" where
  "log_ret r res = (case res of Inl f \<Rightarrow> Inl f | Inr s \<Rightarrow> Inr (r, s))"

definition log_buf_vprint :: "logs \<Rightarrow> int \<Rightarrow> int \<Rightarrow> string option \<Rightarrow> string \<Rightarrow> fault + int \<times> logs" where
  "log_buf_vprint s bufID prio t text =
     (let t = (case t of None \<Rightarrow> log_get_default_tag s | Some t \<Rightarrow> t)
      in if \<not> log_is_loggable s prio (Some t) ANDROID_LOG_VERBOSE then Inr (- EPERM, s)
         else if g_logger s = Logd_Logger then
           (case table_at g_logprimap prio of
              Inl f \<Rightarrow> Inl f
            | Inr p \<Rightarrow> Inr (1, emit s (Syslog p (''['' @ t @ ''] '' @ text @ line_end))))
         else log_ret 1 (log_write_log_message_buf s bufID prio (Some t) text))"

definition log_vprint :: "logs \<Rightarrow> int \<Rightarrow> string option \<Rightarrow> string \<Rightarrow> fault + int \<times> logs" where
  "log_vprint s prio t text = log_buf_vprint s LOG_ID_MAIN prio t text"

definition log_print :: "logs \<Rightarrow> int \<Rightarrow> string option \<Rightarrow> string \<Rightarrow> fault + int \<times> logs" where
  "log_print s prio t text = log_vprint s prio t text"

definition log_buf_print :: "logs \<Rightarrow> int \<Rightarrow> int \<Rightarrow> string option \<Rightarrow> string \<Rightarrow> fault + int \<times> logs" where
  "log_buf_print s bufID prio t text = log_buf_vprint s bufID prio t text"

definition log_buf_write :: "logs \<Rightarrow> int \<Rightarrow> int \<Rightarrow> string option \<Rightarrow> string \<Rightarrow> fault + int \<times> logs" where
  "log_buf_write s bufID prio t text =
     (if \<not> log_is_loggable s prio t ANDROID_LOG_VERBOSE then Inr (- EPERM, s)
      else log_ret 1 (log_write_log_message s (log_message_of bufID prio t text)))"

definition log_write :: "logs \<Rightarrow> int \<Rightarrow> string option \<Rightarrow> string \<Rightarrow> fault + int \<times> logs" where
  "log_write s prio t text = log_buf_write s LOG_ID_MAIN prio t text"

section \<open>Aborting\<close>

text \<open>
  A call that does not return ends the process (\<open>Aborted\<close>) or loops forever (\<open>Hangs\<close>), when the
  program's own aborter returns.
\<close>

datatype ending = Aborted logs | Hangs logs

definition log_set_aborter :: "logs \<Rightarrow> aborter \<Rightarrow> logs" where
  "log_set_aborter s a = s\<lparr>g_aborter := a\<rparr>"

definition log_default_aborter :: "logs \<Rightarrow> string option \<Rightarrow> ending" where
  "log_default_aborter s msg = Aborted (set_abort_message s msg)"

definition log_call_aborter :: "logs \<Rightarrow> string option \<Rightarrow> ending + logs" where
  "log_call_aborter s msg =
     (case g_aborter s of
        Default_Aborter \<Rightarrow> Inl (log_default_aborter s msg)
      | User_Aborter i \<Rightarrow> Inr (emit s (User_Abort i msg)))"

definition log_assert :: "logs \<Rightarrow> string option \<Rightarrow> string option \<Rightarrow> string option \<Rightarrow> fault + ending" where
  "log_assert s cond t fmt =
     (case log_print s ANDROID_LOG_FATAL t
             (case fmt of
                Some text \<Rightarrow> text
              | None \<Rightarrow> (case cond of
                           Some c \<Rightarrow> ''Assertion failed: '' @ c @ line_end
                         | None \<Rightarrow> ''Unspecified assertion failed'' @ line_end)) of
        Inl f \<Rightarrow> Inl f
      | Inr (_, s) \<Rightarrow> (case log_call_aborter s t of Inl e \<Rightarrow> Inr e | Inr s \<Rightarrow> Inr (Hangs s)))"

definition log_error_write :: "logs \<Rightarrow> int \<Rightarrow> string option \<Rightarrow> int \<Rightarrow> string option \<Rightarrow> fault + int \<times> logs" where
  "log_error_write s t subTag uid data =
     (case log_print s ANDROID_LOG_ERROR subTag
             (''tag: '' @ show_int t @ '' uid: '' @ show_int uid @ '' data: '' @ str_arg data @ line_end) of
        Inl f \<Rightarrow> Inl f | Inr (_, s) \<Rightarrow> Inr (0, s))"

section \<open>The filter\<close>

lemma log_emit_env [simp]: "log_env (emit s e) = log_env s" "g_logger (emit s e) = g_logger s"
  "g_aborter (emit s e) = g_aborter s" "written (emit s e) = written s @ [e]"
  by (simp_all add: emit_def)

text \<open>What was set is read back, with values beyond the range taken as fatal.\<close>

lemma log_set_get_minimum:
  assumes "\<not> log_nomem s" "log_set_minimum_priority s p = (old, s')"
  shows "log_get_minimum_priority s' = clamp_prio p" "old = log_get_minimum_priority s"
  using assms
  by (auto simp: log_set_minimum_priority_def log_get_minimum_priority_def log_setenv_def clamp_prio_def
      atoi_show_int Let_def)

lemma log_loggable_after_set:
  assumes "\<not> log_nomem s" "log_set_minimum_priority s p = (old, s')" "p \<noteq> ANDROID_LOG_DEFAULT"
  shows "log_is_loggable s' prio t d \<longleftrightarrow> clamp_prio p \<le> prio"
  using log_set_get_minimum(1) [OF assms(1,2)] assms(3)
  by (auto simp: log_is_loggable_def clamp_prio_def log_prios Let_def)

text \<open>
  Without a minimum priority in the environment, what the priority filter lets through, by the default
  logger, is written once, and nothing below \<open>ANDROID_LOG_VERBOSE\<close> is.
\<close>

lemma table_at_Inr: "table_at xs i = Inr x \<longleftrightarrow> 0 \<le> i \<and> i < int (length xs) \<and> x = xs ! nat i"
  by (auto simp: table_at_def)

lemma table_at_Inl: "table_at xs i = Inl f \<longleftrightarrow> \<not> (0 \<le> i \<and> i < int (length xs)) \<and> f = OutOfBounds"
  by (auto simp: table_at_def)

lemma log_vprint_logd:
  assumes "g_logger s = Logd_Logger"
  shows "log_buf_vprint s b prio (Some t) text =
    (if \<not> log_is_loggable s prio (Some t) ANDROID_LOG_VERBOSE then Inr (- EPERM, s)
     else if 0 \<le> prio \<and> prio \<le> ANDROID_LOG_SILENT
     then Inr (1, emit s (Syslog (g_logprimap ! nat prio) (''['' @ t @ ''] '' @ text @ line_end)))
     else Inl OutOfBounds)"
  using assms by (simp add: log_buf_vprint_def table_at_def g_logprimap_def log_prios Let_def)

text \<open>Written through \<open>log_write\<close>, a priority above the range is clamped and only a negative one faults.\<close>

lemma log_write_logd:
  assumes "g_logger s = Logd_Logger" "prio \<noteq> ANDROID_LOG_FATAL"
  shows "log_buf_write s b prio (Some t) text =
    (if \<not> log_is_loggable s prio (Some t) ANDROID_LOG_VERBOSE then Inr (- EPERM, s)
     else if 0 \<le> prio
     then Inr (1, emit s (Syslog (g_logprimap ! nat (clamp_prio prio)) (''['' @ t @ ''] '' @ text @ line_end)))
     else Inl OutOfBounds)"
  using assms
  by (auto simp: log_buf_write_def log_write_log_message_def log_message_of_def call_logger_def log_ret_def
      log_logd_logger_def table_at_def g_logprimap_def clamp_prio_def log_prios str_arg_def Let_def)

text \<open>The two ways of writing agree on the priorities of the enumeration below fatal.\<close>

lemma log_print_write:
  assumes "g_logger s = Logd_Logger" "0 \<le> prio" "prio < ANDROID_LOG_FATAL"
  shows "log_print s prio (Some t) text = log_write s prio (Some t) text"
proof -
  have "clamp_prio prio = prio" "prio \<noteq> ANDROID_LOG_FATAL" "prio \<le> ANDROID_LOG_SILENT"
    using assms(3) by (auto simp: clamp_prio_def log_prios)
  then show ?thesis
    using log_vprint_logd [OF assms(1), of LOG_ID_MAIN prio t "text"]
      log_write_logd [OF assms(1), of prio LOG_ID_MAIN t "text"] assms(2)
    by (simp add: log_print_def log_vprint_def log_write_def)
qed

text \<open>A failed assertion with the default aborter ends the process, and the log ends with the abort message.\<close>

lemma log_assert_aborts:
  assumes "g_logger s = Logd_Logger" "g_aborter s = Default_Aborter"
    and "log_is_loggable s ANDROID_LOG_FATAL (Some t) ANDROID_LOG_VERBOSE"
  shows "\<exists>s'. log_assert s (Some c) (Some t) None = Inr (Aborted s') \<and>
    written s' = written s @ [Syslog 2 (''['' @ t @ ''] Assertion failed: '' @ c @ line_end @ line_end),
      Syslog 1 (''Abort Message: '' @ t)]"
  using assms log_vprint_logd [OF assms(1), of LOG_ID_MAIN ANDROID_LOG_FATAL t]
  by (simp add: log_assert_def log_print_def log_vprint_def log_call_aborter_def log_default_aborter_def
      set_abort_message_def str_arg_def g_logprimap_def log_prios)

end
