(* ===== verification/Log_Macros.thy ===== *)
theory Log_Macros
  imports Log
begin

text \<open>
  The logging macros of \<open>include/log/log_main.h\<close>, \<open>log_system.h\<close>, \<open>log_radio.h\<close> and \<open>log_safetynet.h\<close> over the
  functions of \<open>log_write.c\<close>. What the preprocessor is given is a record: the build option \<open>CONFIG_ALOG\<close>, whether
  the build is a release (\<open>LOG_NDEBUG\<close>), and the tag of the file. The format with its arguments is the
  expanded text; the macros are used with their default definitions.
\<close>

section \<open>Basic macros\<close>

record macros =
  CONFIG_ALOG :: "int option"
  LOG_NDEBUG :: bool
  LOG_TAG :: "string option"

definition LOG_ID_RADIO :: int where "LOG_ID_RADIO = 1"

definition LOG_ID_SYSTEM :: int where "LOG_ID_SYSTEM = 3"

definition android_writeLog :: "logs \<Rightarrow> int \<Rightarrow> string option \<Rightarrow> string \<Rightarrow> fault + int \<times> logs" where
  "android_writeLog s prio t txt = log_write s prio t txt"

definition android_printLog :: "logs \<Rightarrow> int \<Rightarrow> string option \<Rightarrow> string \<Rightarrow> fault + int \<times> logs" where
  "android_printLog s prio t txt = log_print s prio t txt"

definition android_vprintLog :: "logs \<Rightarrow> int \<Rightarrow> string option \<Rightarrow> string \<Rightarrow> fault + int \<times> logs" where
  "android_vprintLog s prio t txt = log_vprint s prio t txt"

definition LOG_PRI :: "logs \<Rightarrow> int \<Rightarrow> string option \<Rightarrow> string \<Rightarrow> fault + int \<times> logs" where
  "LOG_PRI s prio t txt = android_printLog s prio t txt"

definition LOG_PRI_VA :: "logs \<Rightarrow> int \<Rightarrow> string option \<Rightarrow> string \<Rightarrow> fault + int \<times> logs" where
  "LOG_PRI_VA s prio t txt = android_vprintLog s prio t txt"

text \<open>The result of a message is cast to \<open>void\<close>.\<close>

definition void :: "fault + int \<times> logs \<Rightarrow> fault + logs" where
  "void r = (case r of Inl f \<Rightarrow> Inl f | Inr (_, s) \<Rightarrow> Inr s)"

section \<open>The level of the build\<close>

definition ALOG :: "macros \<Rightarrow> logs \<Rightarrow> int \<Rightarrow> string option \<Rightarrow> string \<Rightarrow> fault + int \<times> logs" where
  "ALOG c s prio t txt =
     (case CONFIG_ALOG c of
        None \<Rightarrow> LOG_PRI s prio t txt
      | Some n \<Rightarrow>
          if (if n = 2 then ANDROID_LOG_ERROR else if n = 3 then ANDROID_LOG_WARN else if n = 4 then ANDROID_LOG_INFO
              else if n = 5 then ANDROID_LOG_DEBUG else if n = 6 then ANDROID_LOG_VERBOSE else ANDROID_LOG_FATAL) \<le> prio
          then LOG_PRI s prio t txt else Inr (0, s))"

definition android_testLog :: "macros \<Rightarrow> logs \<Rightarrow> int \<Rightarrow> string option \<Rightarrow> bool" where
  "android_testLog c s prio t =
     (let len = (case t of None \<Rightarrow> 0 | Some t \<Rightarrow> length t)
      in case CONFIG_ALOG c of
           Some n \<Rightarrow>
             if n = 1 then ANDROID_LOG_FATAL \<le> prio \<and> log_is_loggable_len s prio t len prio
             else if n = 2 then ANDROID_LOG_ERROR \<le> prio \<and> log_is_loggable_len s prio t len prio
             else if n = 3 then ANDROID_LOG_WARN \<le> prio \<and> log_is_loggable_len s prio t len prio
             else if n = 4 then ANDROID_LOG_INFO \<le> prio \<and> log_is_loggable_len s prio t len prio
             else if n = 5 then ANDROID_LOG_DEBUG \<le> prio \<and> log_is_loggable_len s prio t len prio
             else if n = 6 then ANDROID_LOG_VERBOSE \<le> prio \<and> log_is_loggable_len s prio t len prio
             else False
         | None \<Rightarrow>
             if LOG_NDEBUG c then log_is_loggable_len s prio t len ANDROID_LOG_DEBUG
             else log_is_loggable_len s prio t len ANDROID_LOG_VERBOSE)"

definition IF_ALOG :: "macros \<Rightarrow> logs \<Rightarrow> int \<Rightarrow> string option \<Rightarrow> bool" where
  "IF_ALOG c s prio t = android_testLog c s prio t"

section \<open>Messages of the program\<close>

definition ALOGV :: "macros \<Rightarrow> logs \<Rightarrow> string \<Rightarrow> fault + logs" where
  "ALOGV c s txt = void (ALOG c s ANDROID_LOG_VERBOSE (LOG_TAG c) txt)"

definition ALOGV_IF :: "macros \<Rightarrow> logs \<Rightarrow> bool \<Rightarrow> string \<Rightarrow> fault + logs" where
  "ALOGV_IF c s cond txt = (if cond then void (ALOG c s ANDROID_LOG_VERBOSE (LOG_TAG c) txt) else Inr s)"

definition IF_ALOGV :: "macros \<Rightarrow> logs \<Rightarrow> bool" where
  "IF_ALOGV c s = IF_ALOG c s ANDROID_LOG_VERBOSE (LOG_TAG c)"

definition ALOGD :: "macros \<Rightarrow> logs \<Rightarrow> string \<Rightarrow> fault + logs" where
  "ALOGD c s txt = void (ALOG c s ANDROID_LOG_DEBUG (LOG_TAG c) txt)"

definition ALOGD_IF :: "macros \<Rightarrow> logs \<Rightarrow> bool \<Rightarrow> string \<Rightarrow> fault + logs" where
  "ALOGD_IF c s cond txt = (if cond then void (ALOG c s ANDROID_LOG_DEBUG (LOG_TAG c) txt) else Inr s)"

definition IF_ALOGD :: "macros \<Rightarrow> logs \<Rightarrow> bool" where
  "IF_ALOGD c s = IF_ALOG c s ANDROID_LOG_DEBUG (LOG_TAG c)"

definition ALOGI :: "macros \<Rightarrow> logs \<Rightarrow> string \<Rightarrow> fault + logs" where
  "ALOGI c s txt = void (ALOG c s ANDROID_LOG_INFO (LOG_TAG c) txt)"

definition ALOGI_IF :: "macros \<Rightarrow> logs \<Rightarrow> bool \<Rightarrow> string \<Rightarrow> fault + logs" where
  "ALOGI_IF c s cond txt = (if cond then void (ALOG c s ANDROID_LOG_INFO (LOG_TAG c) txt) else Inr s)"

definition IF_ALOGI :: "macros \<Rightarrow> logs \<Rightarrow> bool" where
  "IF_ALOGI c s = IF_ALOG c s ANDROID_LOG_INFO (LOG_TAG c)"

definition ALOGW :: "macros \<Rightarrow> logs \<Rightarrow> string \<Rightarrow> fault + logs" where
  "ALOGW c s txt = void (ALOG c s ANDROID_LOG_WARN (LOG_TAG c) txt)"

definition ALOGW_IF :: "macros \<Rightarrow> logs \<Rightarrow> bool \<Rightarrow> string \<Rightarrow> fault + logs" where
  "ALOGW_IF c s cond txt = (if cond then void (ALOG c s ANDROID_LOG_WARN (LOG_TAG c) txt) else Inr s)"

definition IF_ALOGW :: "macros \<Rightarrow> logs \<Rightarrow> bool" where
  "IF_ALOGW c s = IF_ALOG c s ANDROID_LOG_WARN (LOG_TAG c)"

definition ALOGE :: "macros \<Rightarrow> logs \<Rightarrow> string \<Rightarrow> fault + logs" where
  "ALOGE c s txt = void (ALOG c s ANDROID_LOG_ERROR (LOG_TAG c) txt)"

definition ALOGE_IF :: "macros \<Rightarrow> logs \<Rightarrow> bool \<Rightarrow> string \<Rightarrow> fault + logs" where
  "ALOGE_IF c s cond txt = (if cond then void (ALOG c s ANDROID_LOG_ERROR (LOG_TAG c) txt) else Inr s)"

definition IF_ALOGE :: "macros \<Rightarrow> logs \<Rightarrow> bool" where
  "IF_ALOGE c s = IF_ALOG c s ANDROID_LOG_ERROR (LOG_TAG c)"

section \<open>Messages of the system and of the radio\<close>

definition SLOGV_body :: "macros \<Rightarrow> logs \<Rightarrow> string \<Rightarrow> fault + logs" where
  "SLOGV_body c s txt = void (log_buf_print s LOG_ID_SYSTEM ANDROID_LOG_VERBOSE (LOG_TAG c) txt)"

definition SLOGV :: "macros \<Rightarrow> logs \<Rightarrow> string \<Rightarrow> fault + logs" where
  "SLOGV c s txt = (if LOG_NDEBUG c then Inr s else SLOGV_body c s txt)"

definition SLOGV_IF :: "macros \<Rightarrow> logs \<Rightarrow> bool \<Rightarrow> string \<Rightarrow> fault + logs" where
  "SLOGV_IF c s cond txt =
     (if LOG_NDEBUG c then Inr s else if cond then void (log_buf_print s LOG_ID_SYSTEM ANDROID_LOG_VERBOSE (LOG_TAG c) txt) else Inr s)"

definition SLOGD :: "macros \<Rightarrow> logs \<Rightarrow> string \<Rightarrow> fault + logs" where
  "SLOGD c s txt = void (log_buf_print s LOG_ID_SYSTEM ANDROID_LOG_DEBUG (LOG_TAG c) txt)"

definition SLOGD_IF :: "macros \<Rightarrow> logs \<Rightarrow> bool \<Rightarrow> string \<Rightarrow> fault + logs" where
  "SLOGD_IF c s cond txt =
     (if cond then void (log_buf_print s LOG_ID_SYSTEM ANDROID_LOG_DEBUG (LOG_TAG c) txt) else Inr s)"

definition SLOGI :: "macros \<Rightarrow> logs \<Rightarrow> string \<Rightarrow> fault + logs" where
  "SLOGI c s txt = void (log_buf_print s LOG_ID_SYSTEM ANDROID_LOG_INFO (LOG_TAG c) txt)"

definition SLOGI_IF :: "macros \<Rightarrow> logs \<Rightarrow> bool \<Rightarrow> string \<Rightarrow> fault + logs" where
  "SLOGI_IF c s cond txt =
     (if cond then void (log_buf_print s LOG_ID_SYSTEM ANDROID_LOG_INFO (LOG_TAG c) txt) else Inr s)"

definition SLOGW :: "macros \<Rightarrow> logs \<Rightarrow> string \<Rightarrow> fault + logs" where
  "SLOGW c s txt = void (log_buf_print s LOG_ID_SYSTEM ANDROID_LOG_WARN (LOG_TAG c) txt)"

definition SLOGW_IF :: "macros \<Rightarrow> logs \<Rightarrow> bool \<Rightarrow> string \<Rightarrow> fault + logs" where
  "SLOGW_IF c s cond txt =
     (if cond then void (log_buf_print s LOG_ID_SYSTEM ANDROID_LOG_WARN (LOG_TAG c) txt) else Inr s)"

definition SLOGE :: "macros \<Rightarrow> logs \<Rightarrow> string \<Rightarrow> fault + logs" where
  "SLOGE c s txt = void (log_buf_print s LOG_ID_SYSTEM ANDROID_LOG_ERROR (LOG_TAG c) txt)"

definition SLOGE_IF :: "macros \<Rightarrow> logs \<Rightarrow> bool \<Rightarrow> string \<Rightarrow> fault + logs" where
  "SLOGE_IF c s cond txt =
     (if cond then void (log_buf_print s LOG_ID_SYSTEM ANDROID_LOG_ERROR (LOG_TAG c) txt) else Inr s)"

definition RLOGV_body :: "macros \<Rightarrow> logs \<Rightarrow> string \<Rightarrow> fault + logs" where
  "RLOGV_body c s txt = void (log_buf_print s LOG_ID_RADIO ANDROID_LOG_VERBOSE (LOG_TAG c) txt)"

definition RLOGV :: "macros \<Rightarrow> logs \<Rightarrow> string \<Rightarrow> fault + logs" where
  "RLOGV c s txt = (if LOG_NDEBUG c then Inr s else RLOGV_body c s txt)"

definition RLOGV_IF :: "macros \<Rightarrow> logs \<Rightarrow> bool \<Rightarrow> string \<Rightarrow> fault + logs" where
  "RLOGV_IF c s cond txt =
     (if LOG_NDEBUG c then Inr s else if cond then void (log_buf_print s LOG_ID_RADIO ANDROID_LOG_VERBOSE (LOG_TAG c) txt) else Inr s)"

definition RLOGD :: "macros \<Rightarrow> logs \<Rightarrow> string \<Rightarrow> fault + logs" where
  "RLOGD c s txt = (if LOG_NDEBUG c then Inr s else void (log_buf_print s LOG_ID_RADIO ANDROID_LOG_DEBUG (LOG_TAG c) txt))"

definition RLOGD_IF :: "macros \<Rightarrow> logs \<Rightarrow> bool \<Rightarrow> string \<Rightarrow> fault + logs" where
  "RLOGD_IF c s cond txt =
     (if cond then void (log_buf_print s LOG_ID_RADIO ANDROID_LOG_DEBUG (LOG_TAG c) txt) else Inr s)"

definition RLOGI :: "macros \<Rightarrow> logs \<Rightarrow> string \<Rightarrow> fault + logs" where
  "RLOGI c s txt = void (log_buf_print s LOG_ID_RADIO ANDROID_LOG_INFO (LOG_TAG c) txt)"

definition RLOGI_IF :: "macros \<Rightarrow> logs \<Rightarrow> bool \<Rightarrow> string \<Rightarrow> fault + logs" where
  "RLOGI_IF c s cond txt =
     (if cond then void (log_buf_print s LOG_ID_RADIO ANDROID_LOG_INFO (LOG_TAG c) txt) else Inr s)"

definition RLOGW :: "macros \<Rightarrow> logs \<Rightarrow> string \<Rightarrow> fault + logs" where
  "RLOGW c s txt = void (log_buf_print s LOG_ID_RADIO ANDROID_LOG_WARN (LOG_TAG c) txt)"

definition RLOGW_IF :: "macros \<Rightarrow> logs \<Rightarrow> bool \<Rightarrow> string \<Rightarrow> fault + logs" where
  "RLOGW_IF c s cond txt =
     (if cond then void (log_buf_print s LOG_ID_RADIO ANDROID_LOG_WARN (LOG_TAG c) txt) else Inr s)"

definition RLOGE :: "macros \<Rightarrow> logs \<Rightarrow> string \<Rightarrow> fault + logs" where
  "RLOGE c s txt = void (log_buf_print s LOG_ID_RADIO ANDROID_LOG_ERROR (LOG_TAG c) txt)"

definition RLOGE_IF :: "macros \<Rightarrow> logs \<Rightarrow> bool \<Rightarrow> string \<Rightarrow> fault + logs" where
  "RLOGE_IF c s cond txt =
     (if cond then void (log_buf_print s LOG_ID_RADIO ANDROID_LOG_ERROR (LOG_TAG c) txt) else Inr s)"

definition android_errorWriteLog :: "logs \<Rightarrow> int \<Rightarrow> string option \<Rightarrow> fault + int \<times> logs" where
  "android_errorWriteLog s t subTag = log_error_write s t subTag (- 1) None"

definition android_errorWriteWithInfoLog ::
  "logs \<Rightarrow> int \<Rightarrow> string option \<Rightarrow> int \<Rightarrow> string option \<Rightarrow> fault + int \<times> logs" where
  "android_errorWriteWithInfoLog s t subTag uid data = log_error_write s t subTag uid data"

section \<open>Fatal errors\<close>

text \<open>
  A macro that may end the process: the result is how it ended or the state it goes on with. \<open>cond_text\<close> is the
  text of the condition, \<open>fmt\<close> the expanded message, none when the macro is used without one.
\<close>

definition android_printAssert :: "logs \<Rightarrow> string option \<Rightarrow> string option \<Rightarrow> string option \<Rightarrow> fault + (ending + logs)" where
  "android_printAssert s cond_text t fmt =
     (case log_assert s cond_text t fmt of Inl f \<Rightarrow> Inl f | Inr e \<Rightarrow> Inr (Inl e))"

definition fatal_kept :: "macros \<Rightarrow> bool" where
  "fatal_kept c = (case CONFIG_ALOG c of None \<Rightarrow> True | Some n \<Rightarrow> 0 \<le> n)"

definition LOG_ALWAYS_FATAL_IF :: "macros \<Rightarrow> logs \<Rightarrow> string \<Rightarrow> bool \<Rightarrow> string option \<Rightarrow> fault + (ending + logs)" where
  "LOG_ALWAYS_FATAL_IF c s cond_text cond fmt =
     (if fatal_kept c \<and> cond then android_printAssert s (Some cond_text) (LOG_TAG c) fmt else Inr (Inr s))"

definition LOG_ALWAYS_FATAL :: "macros \<Rightarrow> logs \<Rightarrow> string option \<Rightarrow> fault + (ending + logs)" where
  "LOG_ALWAYS_FATAL c s fmt =
     (if fatal_kept c then android_printAssert s None (LOG_TAG c) fmt else Inr (Inr s))"

definition fatal_stripped :: "macros \<Rightarrow> bool" where
  "fatal_stripped c = (case CONFIG_ALOG c of None \<Rightarrow> LOG_NDEBUG c | Some n \<Rightarrow> n < 1)"

definition LOG_FATAL_IF :: "macros \<Rightarrow> logs \<Rightarrow> string \<Rightarrow> bool \<Rightarrow> string option \<Rightarrow> fault + (ending + logs)" where
  "LOG_FATAL_IF c s cond_text cond fmt =
     (if fatal_stripped c then Inr (Inr s) else LOG_ALWAYS_FATAL_IF c s cond_text cond fmt)"

definition LOG_FATAL :: "macros \<Rightarrow> logs \<Rightarrow> string option \<Rightarrow> fault + (ending + logs)" where
  "LOG_FATAL c s fmt = (if fatal_stripped c then Inr (Inr s) else LOG_ALWAYS_FATAL c s fmt)"

definition ALOG_ASSERT :: "macros \<Rightarrow> logs \<Rightarrow> string \<Rightarrow> bool \<Rightarrow> string option \<Rightarrow> fault + (ending + logs)" where
  "ALOG_ASSERT c s cond_text cond fmt = LOG_FATAL_IF c s (''!('' @ cond_text @ '')'') (\<not> cond) fmt"

section \<open>The test and the message\<close>

text \<open>
  In a debug build, and with a level from 1 to 6, the test of a priority is exactly whether a message of
  that priority is written. In a release build without a level it is not: verbose messages are
  written although their test fails.
\<close>

definition tested_build :: "macros \<Rightarrow> bool" where
  "tested_build c = (case CONFIG_ALOG c of None \<Rightarrow> \<not> LOG_NDEBUG c | Some n \<Rightarrow> 1 \<le> n \<and> n \<le> 6)"

lemma loggable_default:
  assumes "d \<le> prio" "d' \<le> prio"
  shows "log_is_loggable s prio t d = log_is_loggable s prio t' d'"
  using assms by (simp add: log_is_loggable_def Let_def)

lemma alog_test:
  assumes "tested_build c" "g_logger s = Logd_Logger" "0 \<le> prio" "prio \<le> ANDROID_LOG_SILENT"
  shows "void (ALOG c s prio (Some t) txt) =
    Inr (if android_testLog c s prio (Some t)
         then emit s (Syslog (g_logprimap ! nat prio) (''['' @ t @ ''] '' @ txt @ line_end)) else s)"
proof (cases "CONFIG_ALOG c")
  case None
  with assms show ?thesis
    by (simp add: tested_build_def ALOG_def LOG_PRI_def android_printLog_def log_print_def log_vprint_def
        log_vprint_logd void_def android_testLog_def log_is_loggable_len_def)
next
  case (Some n)
  with assms(1) have "n \<in> {1, 2, 3, 4, 5, 6}" by (auto simp: tested_build_def)
  with Some assms(2-4) loggable_default [of ANDROID_LOG_VERBOSE prio prio s "Some t" "Some t"] show ?thesis
    by (auto simp: ALOG_def LOG_PRI_def android_printLog_def log_print_def log_vprint_def log_prios
        log_vprint_logd void_def android_testLog_def log_is_loggable_len_def)
qed

lemma alog_verbose_untested:
  assumes "CONFIG_ALOG c = None" "LOG_NDEBUG c" "log_env s ''ANDROID_LOG_MIN_PRIORITY'' = None"
    and "g_logger s = Logd_Logger" "LOG_TAG c = Some t"
  shows "\<not> IF_ALOGV c s" "ALOGV c s txt = Inr (emit s (Syslog 7 (''['' @ t @ ''] '' @ txt @ line_end)))"
  using assms
  by (simp_all add: IF_ALOGV_def IF_ALOG_def android_testLog_def log_is_loggable_len_def log_is_loggable_def
      log_get_minimum_priority_def ALOGV_def ALOG_def LOG_PRI_def android_printLog_def log_print_def log_vprint_def
      log_vprint_logd void_def g_logprimap_def log_prios)

text \<open>
  An assertion: nothing when the condition holds or the macro is stripped; otherwise, with the default
  aborter, the end of the process.
\<close>

lemma alog_assert:
  assumes "g_logger s = Logd_Logger" "g_aborter s = Default_Aborter" "LOG_TAG c = Some t"
    and "log_is_loggable s ANDROID_LOG_FATAL (Some t) ANDROID_LOG_VERBOSE"
  shows "ALOG_ASSERT c s cond_text cond None = Inr (Inr s) \<and> (cond \<or> fatal_stripped c) \<or>
    (\<exists>s'. ALOG_ASSERT c s cond_text cond None = Inr (Inl (Aborted s')) \<and> \<not> cond \<and> \<not> fatal_stripped c)"
proof (cases "cond \<or> fatal_stripped c")
  case True
  then show ?thesis by (auto simp: ALOG_ASSERT_def LOG_FATAL_IF_def LOG_ALWAYS_FATAL_IF_def)
next
  case False
  then have k: "fatal_kept c" by (auto simp: fatal_stripped_def fatal_kept_def split: option.splits)
  from log_assert_aborts [OF assms(1,2,4), of "''!('' @ cond_text @ '')''"] obtain s' where
    "log_assert s (Some (''!('' @ cond_text @ '')'')) (Some t) None = Inr (Aborted s')" by blast
  with False k assms(3) show ?thesis
    by (simp add: ALOG_ASSERT_def LOG_FATAL_IF_def LOG_ALWAYS_FATAL_IF_def android_printAssert_def)
qed

end
