(* ===== verification/Log_Time.thy ===== *)
theory Log_Time
  imports Prelude "HOL-Library.Word"
begin

text \<open>
  The time stamps of log entries, \<open>struct log_time\<close> of \<open>include/log/log_time.h\<close>: seconds and nanoseconds as
  unsigned numbers of 32 bits, compared lexicographically, added and subtracted with carry and borrow.
\<close>

section \<open>The type and its operators\<close>

datatype log_time = Log_Time (tv_sec: "32 word") (tv_nsec: "32 word")

definition NS_PER_SEC :: "64 word" where "NS_PER_SEC = 1000000000"

definition US_PER_SEC :: "64 word" where "US_PER_SEC = 1000000"

definition MS_PER_SEC :: "64 word" where "MS_PER_SEC = 1000"

lemmas per_sec = NS_PER_SEC_def US_PER_SEC_def MS_PER_SEC_def

definition LOG_TIME_SEC :: "log_time \<Rightarrow> 32 word" where
  "LOG_TIME_SEC t = tv_sec t"

unbundle bit_operations_syntax

definition LOG_TIME_NSEC :: "log_time \<Rightarrow> 32 word" where
  "LOG_TIME_NSEC t = tv_nsec t AND drop_bit 2 (- 1)"

text \<open>A \<open>timespec\<close> has a signed number of seconds and of nanoseconds; the conversion cuts both to 32 bits.\<close>

definition EPOCH :: "int \<times> int" where "EPOCH = (0, 0)"

definition log_time_of_timespec :: "int \<times> int \<Rightarrow> log_time" where
  "log_time_of_timespec T = Log_Time (word_of_int (fst T)) (word_of_int (snd T))"

text \<open>The other constructors: both members zero, from two numbers, from a clock that \<open>clock_gettime\<close> has read.\<close>

definition log_time_zero :: log_time where
  "log_time_zero = Log_Time 0 0"

definition log_time_new :: "32 word \<Rightarrow> 32 word option \<Rightarrow> log_time" where
  "log_time_new sec nsec = Log_Time sec (case nsec of None \<Rightarrow> 0 | Some n \<Rightarrow> n)"

definition log_time_of_clock :: "(int \<Rightarrow> int \<times> int) \<Rightarrow> int \<Rightarrow> log_time" where
  "log_time_of_clock clock_gettime clk =
     (let T = clock_gettime clk in Log_Time (word_of_int (fst T)) (word_of_int (snd T)))"

lemma log_time_constructors:
  "log_time_of_clock clock_gettime clk = log_time_of_timespec (clock_gettime clk)"
  "log_time_of_timespec EPOCH = log_time_zero" "log_time_new 0 None = log_time_zero"
  by (simp_all add: log_time_of_clock_def log_time_of_timespec_def log_time_zero_def log_time_new_def EPOCH_def Let_def)

definition log_time_eq_ts :: "log_time \<Rightarrow> int \<times> int \<Rightarrow> bool" where
  "log_time_eq_ts t T \<longleftrightarrow> tv_sec t = word_of_int (fst T) \<and> tv_nsec t = word_of_int (snd T)"

definition log_time_ne_ts :: "log_time \<Rightarrow> int \<times> int \<Rightarrow> bool" where
  "log_time_ne_ts t T \<longleftrightarrow> \<not> log_time_eq_ts t T"

definition log_time_lt_ts :: "log_time \<Rightarrow> int \<times> int \<Rightarrow> bool" where
  "log_time_lt_ts t T \<longleftrightarrow> tv_sec t < word_of_int (fst T) \<or>
     tv_sec t = word_of_int (fst T) \<and> tv_nsec t < word_of_int (snd T)"

definition log_time_ge_ts :: "log_time \<Rightarrow> int \<times> int \<Rightarrow> bool" where
  "log_time_ge_ts t T \<longleftrightarrow> \<not> log_time_lt_ts t T"

definition log_time_gt_ts :: "log_time \<Rightarrow> int \<times> int \<Rightarrow> bool" where
  "log_time_gt_ts t T \<longleftrightarrow> word_of_int (fst T) < tv_sec t \<or>
     tv_sec t = word_of_int (fst T) \<and> word_of_int (snd T) < tv_nsec t"

definition log_time_le_ts :: "log_time \<Rightarrow> int \<times> int \<Rightarrow> bool" where
  "log_time_le_ts t T \<longleftrightarrow> \<not> log_time_gt_ts t T"

definition log_time_eq :: "log_time \<Rightarrow> log_time \<Rightarrow> bool" where
  "log_time_eq t T \<longleftrightarrow> tv_sec t = tv_sec T \<and> tv_nsec t = tv_nsec T"

definition log_time_ne :: "log_time \<Rightarrow> log_time \<Rightarrow> bool" where
  "log_time_ne t T \<longleftrightarrow> \<not> log_time_eq t T"

definition log_time_lt :: "log_time \<Rightarrow> log_time \<Rightarrow> bool" where
  "log_time_lt t T \<longleftrightarrow> tv_sec t < tv_sec T \<or> tv_sec t = tv_sec T \<and> tv_nsec t < tv_nsec T"

definition log_time_ge :: "log_time \<Rightarrow> log_time \<Rightarrow> bool" where
  "log_time_ge t T \<longleftrightarrow> \<not> log_time_lt t T"

definition log_time_gt :: "log_time \<Rightarrow> log_time \<Rightarrow> bool" where
  "log_time_gt t T \<longleftrightarrow> tv_sec T < tv_sec t \<or> tv_sec t = tv_sec T \<and> tv_nsec T < tv_nsec t"

definition log_time_le :: "log_time \<Rightarrow> log_time \<Rightarrow> bool" where
  "log_time_le t T \<longleftrightarrow> \<not> log_time_gt t T"

text \<open>
  The arithmetic of the source mixes 32 and 64 bits: \<open>NS_PER_SEC\<close> is an unsigned number of 64 bits, and the
  result is stored into a field of 32 bits.
\<close>

definition log_time_minus_assign :: "log_time \<Rightarrow> log_time \<Rightarrow> log_time" where
  "log_time_minus_assign t T =
     (if log_time_le t T then log_time_of_timespec EPOCH
      else if tv_nsec t < tv_nsec T
      then Log_Time (tv_sec t - 1 - tv_sec T) (ucast (NS_PER_SEC + ucast (tv_nsec t) - ucast (tv_nsec T)))
      else Log_Time (tv_sec t - tv_sec T) (tv_nsec t - tv_nsec T))"

definition log_time_minus :: "log_time \<Rightarrow> log_time \<Rightarrow> log_time" where
  "log_time_minus t T = log_time_minus_assign t T"

definition log_time_plus_assign :: "log_time \<Rightarrow> log_time \<Rightarrow> log_time" where
  "log_time_plus_assign t T =
     (let nsec = tv_nsec t + tv_nsec T
      in if NS_PER_SEC \<le> ucast nsec
         then Log_Time (tv_sec t + 1 + tv_sec T) (ucast (ucast nsec - NS_PER_SEC))
         else Log_Time (tv_sec t + tv_sec T) nsec)"

definition log_time_plus :: "log_time \<Rightarrow> log_time \<Rightarrow> log_time" where
  "log_time_plus t T = log_time_plus_assign t T"

definition log_time_nsec :: "log_time \<Rightarrow> 64 word" where
  "log_time_nsec t = ucast (tv_sec t) * NS_PER_SEC + ucast (tv_nsec t)"

definition log_time_usec :: "log_time \<Rightarrow> 64 word" where
  "log_time_usec t = ucast (tv_sec t) * US_PER_SEC + ucast (tv_nsec t) div (NS_PER_SEC div US_PER_SEC)"

definition log_time_msec :: "log_time \<Rightarrow> 64 word" where
  "log_time_msec t = ucast (tv_sec t) * MS_PER_SEC + ucast (tv_nsec t) div (NS_PER_SEC div MS_PER_SEC)"

section \<open>A total order\<close>

text \<open>The comparisons of the source are those of a linear order on the type.\<close>

instantiation log_time :: linorder
begin

definition less_eq_log_time :: "log_time \<Rightarrow> log_time \<Rightarrow> bool" where
  "less_eq_log_time = log_time_le"

definition less_log_time :: "log_time \<Rightarrow> log_time \<Rightarrow> bool" where
  "less_log_time = log_time_lt"

instance
  by standard
    (auto simp: less_eq_log_time_def less_log_time_def log_time_le_def log_time_lt_def log_time_gt_def not_less
      intro: log_time.expand dest: order.antisym)

end

lemma log_time_comparisons:
  "log_time_eq t T \<longleftrightarrow> t = T" "log_time_ne t T \<longleftrightarrow> t \<noteq> T" "log_time_lt t T \<longleftrightarrow> t < T"
  "log_time_le t T \<longleftrightarrow> t \<le> T" "log_time_gt t T \<longleftrightarrow> t > T" "log_time_ge t T \<longleftrightarrow> t \<ge> T"
  by (auto simp: log_time_eq_def log_time_ne_def log_time_ge_def log_time_gt_def less_log_time_def log_time_lt_def
      less_eq_log_time_def log_time_le_def not_less intro: log_time.expand)

lemma log_time_ts_comparisons:
  "log_time_eq_ts t T \<longleftrightarrow> t = log_time_of_timespec T" "log_time_lt_ts t T \<longleftrightarrow> t < log_time_of_timespec T"
  "log_time_le_ts t T \<longleftrightarrow> t \<le> log_time_of_timespec T" "log_time_gt_ts t T \<longleftrightarrow> t > log_time_of_timespec T"
  by (simp_all add: log_time_comparisons [symmetric] log_time_eq_ts_def log_time_eq_def log_time_lt_ts_def
      log_time_lt_def log_time_le_ts_def log_time_le_def log_time_gt_ts_def log_time_gt_def log_time_of_timespec_def
      less_log_time_def less_eq_log_time_def) (auto simp: log_time_gt_def)

section \<open>Arithmetic\<close>

text \<open>The number of nanoseconds a time stands for, and the times whose nanoseconds are below a second.\<close>

definition nanos :: "log_time \<Rightarrow> nat" where
  "nanos t = unat (tv_sec t) * 1000000000 + unat (tv_nsec t)"

definition log_time_ok :: "log_time \<Rightarrow> bool" where
  "log_time_ok t \<longleftrightarrow> unat (tv_nsec t) < 1000000000"

lemma word32_less: "unat (w :: 32 word) < 4294967296"
  using unsigned_less [of w, where ?'a = nat] by simp

lemma unat_ucast64 [simp]: "unat (ucast (w :: 32 word) :: 64 word) = unat w"
  using word32_less [of w] by (simp add: unsigned_ucast_eq take_bit_nat_eq_self)

text \<open>No product and no sum of the conversions leaves 64 bits.\<close>

lemma log_time_nsec_nanos: "unat (log_time_nsec t) = nanos t"
  using word32_less [of "tv_sec t"] word32_less [of "tv_nsec t"]
  by (simp add: log_time_nsec_def nanos_def per_sec unat_word_ariths unsigned_of_nat)

lemma log_time_usec_nanos: "unat (log_time_usec t) = nanos t div 1000"
  using word32_less [of "tv_sec t"] word32_less [of "tv_nsec t"]
  by (simp add: log_time_usec_def nanos_def per_sec unat_word_ariths unat_div)

lemma log_time_msec_nanos: "unat (log_time_msec t) = nanos t div 1000000"
  using word32_less [of "tv_sec t"] word32_less [of "tv_nsec t"]
  by (simp add: log_time_msec_def nanos_def per_sec unat_word_ariths unat_div)

text \<open>On times that are normal the order is that of the nanoseconds.\<close>

lemma nanos_less:
  assumes "log_time_ok t" "log_time_ok T"
  shows "t < T \<longleftrightarrow> nanos t < nanos T"
  using assms
  by (auto simp: log_time_comparisons(3) [symmetric] log_time_lt_def nanos_def log_time_ok_def word_less_nat_alt
      word_unat_eq_iff)

text \<open>Subtraction is exact and ends at zero; addition is exact while the seconds do not overflow.\<close>

lemma ucast32: "unat (ucast (w :: 64 word) :: 32 word) = unat w mod 4294967296"
  by (simp add: unsigned_ucast_eq take_bit_eq_mod)

lemma log_time_minus_nanos:
  assumes "log_time_ok t" "log_time_ok T"
  shows "nanos (log_time_minus t T) = nanos t - nanos T \<and> log_time_ok (log_time_minus t T)"
proof (cases "t \<le> T")
  case True
  then have "nanos t \<le> nanos T" using nanos_less [OF assms(2,1)] by (simp add: not_less [symmetric])
  with True show ?thesis
    by (simp add: log_time_minus_def log_time_minus_assign_def log_time_comparisons log_time_of_timespec_def
        EPOCH_def nanos_def log_time_ok_def)
next
  case False
  then have lt: "tv_sec T < tv_sec t \<or> tv_sec t = tv_sec T \<and> tv_nsec T < tv_nsec t"
    by (simp add: log_time_comparisons(4) [symmetric] log_time_le_def log_time_gt_def)
  show ?thesis
  proof (cases "tv_nsec t < tv_nsec T")
    case True
    with lt have s: "tv_sec T < tv_sec t" by auto
    then have "unat (tv_sec t - 1 - tv_sec T) = unat (tv_sec t) - 1 - unat (tv_sec T)"
      by (auto simp: unat_sub_if_size word_size word_less_nat_alt word_le_nat_alt)
    moreover have "unat (ucast (NS_PER_SEC + ucast (tv_nsec t) - ucast (tv_nsec T) :: 64 word) :: 32 word) =
        1000000000 + unat (tv_nsec t) - unat (tv_nsec T)"
      using assms word32_less [of "tv_nsec t"] word32_less [of "tv_nsec T"]
      by (simp add: ucast32 per_sec unat_sub_if_size unat_word_ariths word_le_nat_alt log_time_ok_def)
    ultimately show ?thesis
      using False True s assms
      by (simp add: log_time_minus_def log_time_minus_assign_def log_time_comparisons nanos_def log_time_ok_def
          word_less_nat_alt algebra_simps)
  next
    case nsec: False
    with lt have "tv_sec T \<le> tv_sec t" by auto
    then show ?thesis
      using False nsec assms
      by (simp add: log_time_minus_def log_time_minus_assign_def log_time_comparisons nanos_def log_time_ok_def
          unat_sub word_less_nat_alt word_le_nat_alt algebra_simps)
  qed
qed

lemma carry_mod:
  assumes "r < K"
  shows "(q * K + r) mod (M * K) = (q mod M) * K + (r :: nat)"
proof -
  have "(q * K + r) mod (K * M) = K * ((q * K + r) div K mod M) + (q * K + r) mod K" by (rule mod_mult2_eq)
  with assms show ?thesis by (simp add: mult.commute)
qed

lemma log_time_plus_nanos:
  assumes "log_time_ok t" "log_time_ok T"
  shows "nanos (log_time_plus t T) = (nanos t + nanos T) mod (4294967296 * 1000000000) \<and>
    log_time_ok (log_time_plus t T)"
proof -
  let ?n = "unat (tv_nsec t) + unat (tv_nsec T)" and ?s = "unat (tv_sec t) + unat (tv_sec T)"
  have n: "unat (tv_nsec t + tv_nsec T) = ?n"
    using assms by (simp add: unat_word_ariths log_time_ok_def)
  show ?thesis
  proof (cases "?n < 1000000000")
    case True
    with n have "log_time_plus t T = Log_Time (tv_sec t + tv_sec T) (tv_nsec t + tv_nsec T)"
      by (simp add: log_time_plus_def log_time_plus_assign_def per_sec word_le_nat_alt)
    moreover have "unat (tv_sec t + tv_sec T) = ?s mod 4294967296" by (simp add: unat_word_ariths)
    moreover have "nanos t + nanos T = ?s * 1000000000 + ?n" by (simp add: nanos_def)
    ultimately show ?thesis using True n carry_mod [OF True, of ?s 4294967296]
      by (simp add: nanos_def [of "Log_Time _ _"] log_time_ok_def)
  next
    case False
    have r: "?n - 1000000000 < 1000000000" using assms by (auto simp: log_time_ok_def)
    have "unat (ucast (ucast (tv_nsec t + tv_nsec T) - NS_PER_SEC :: 64 word) :: 32 word) = ?n - 1000000000"
      using False n r by (simp add: ucast32 per_sec unat_sub_if_size word_le_nat_alt)
    moreover have "log_time_plus t T =
        Log_Time (tv_sec t + 1 + tv_sec T) (ucast (ucast (tv_nsec t + tv_nsec T) - NS_PER_SEC :: 64 word))"
      using False n by (simp add: log_time_plus_def log_time_plus_assign_def per_sec word_le_nat_alt)
    moreover have "tv_sec t + 1 + tv_sec T = of_nat (?s + 1)" by (simp add: add.assoc)
    then have "unat (tv_sec t + 1 + tv_sec T) = (?s + 1) mod 4294967296" by (simp only: unat_of_nat) simp
    moreover have "nanos t + nanos T = (?s + 1) * 1000000000 + (?n - 1000000000)"
      using False by (simp add: nanos_def algebra_simps)
    ultimately show ?thesis using r carry_mod [OF r, of "?s + 1" 4294967296]
      by (simp add: nanos_def [of "Log_Time _ _"] log_time_ok_def)
  qed
qed

lemma nanos_inject:
  assumes "log_time_ok t" "log_time_ok T" "nanos t = nanos T"
  shows "t = T"
  using nanos_less [OF assms(1,2)] nanos_less [OF assms(2,1)] assms(3) by auto

text \<open>What was added can be taken away again while the sum fits.\<close>

lemma log_time_plus_minus:
  assumes "log_time_ok t" "log_time_ok T" "nanos t + nanos T < 4294967296 * 1000000000"
  shows "log_time_minus (log_time_plus t T) T = t"
proof -
  note p = log_time_plus_nanos [OF assms(1,2)]
  with assms(3) have "nanos (log_time_plus t T) = nanos t + nanos T" "log_time_ok (log_time_plus t T)" by simp_all
  with log_time_minus_nanos [OF this(2) assms(2)] assms(1) show ?thesis by (intro nanos_inject) auto
qed

text \<open>The mask of \<open>LOG_TIME_NSEC\<close> keeps the nanoseconds of a normal time.\<close>

lemma LOG_TIME_NSEC_ok:
  assumes "log_time_ok t"
  shows "LOG_TIME_NSEC t = tv_nsec t"
proof -
  have "(drop_bit 2 (- 1) :: 32 word) = mask 30" by (simp add: mask_eq_exp_minus_1)
  then have "LOG_TIME_NSEC t = take_bit 30 (tv_nsec t)" by (simp add: LOG_TIME_NSEC_def take_bit_eq_mask)
  also have "\<dots> = tv_nsec t"
    using assms by (simp add: word_unat_eq_iff unsigned_take_bit_eq take_bit_nat_eq_self log_time_ok_def)
  finally show ?thesis .
qed

end
