(* ===== verification/Log_Read.thy ===== *)
theory Log_Read
  imports Log_Time
begin

text \<open>
  The entries a log reader gets, \<open>struct logger_entry\<close> and \<open>struct log_msg\<close> of \<open>include/log/log_read.h\<close>, with the
  methods of the latter: the time, the log, the place and the length of the message in the buffer. The
  entry is the header at the start of the buffer.
\<close>

section \<open>The entry and the methods\<close>

record logger_entry =
  entry_len :: "16 word"
  hdr_size :: "16 word"
  entry_pid :: "32 word"
  entry_tid :: "32 word"
  entry_sec :: "32 word"
  entry_nsec :: "32 word"
  entry_lid :: "32 word"
  entry_uid :: "32 word"

definition LOGGER_ENTRY_MAX_LEN :: nat where "LOGGER_ENTRY_MAX_LEN = 5 * 1024"

text \<open>
  The sizes of the structures: the entry has two numbers of 16 and six of 32 bits; the message is its
  buffer of one byte more than the longest entry, rounded up to the alignment of four.
\<close>

definition sizeof_entry :: nat where "sizeof_entry = 2 * 2 + 6 * 4"

definition sizeof_log_msg :: nat where
  "sizeof_log_msg = (LOGGER_ENTRY_MAX_LEN + 1 + 3) div 4 * 4"

lemmas log_read_sizes = LOGGER_ENTRY_MAX_LEN_def sizeof_entry_def sizeof_log_msg_def

definition log_msg_nsec :: "logger_entry \<Rightarrow> 64 word" where
  "log_msg_nsec e = ucast (entry_sec e) * NS_PER_SEC + ucast (entry_nsec e)"

definition log_msg_id :: "logger_entry \<Rightarrow> 32 word" where
  "log_msg_id e = entry_lid e"

text \<open>The offset of the message in the buffer, none for a null pointer.\<close>

definition log_msg_msg :: "logger_entry \<Rightarrow> nat option" where
  "log_msg_msg e =
     (if sizeof_log_msg - sizeof_entry \<le> unat (hdr_size e) then None else Some (unat (hdr_size e)))"

text \<open>The sum is computed as an \<open>int\<close>, in which two numbers of 16 bits fit.\<close>

definition log_msg_len :: "logger_entry \<Rightarrow> 32 word" where
  "log_msg_len e = ucast (hdr_size e) + ucast (entry_len e)"

section \<open>Where the message is\<close>

lemma word16_less: "unat (w :: 16 word) < 65536"
  using unsigned_less [of w, where ?'a = nat] by simp

lemma unat_ucast16 [simp]: "unat (ucast (w :: 16 word) :: 32 word) = unat w"
  using word16_less [of w] by (simp add: unsigned_ucast_eq take_bit_nat_eq_self)

lemma log_msg_len_exact: "unat (log_msg_len e) = unat (hdr_size e) + unat (entry_len e)"
  using word16_less [of "hdr_size e"] word16_less [of "entry_len e"]
  by (simp add: log_msg_len_def unat_word_ariths)

lemma log_msg_nsec_nanos: "unat (log_msg_nsec e) = nanos (Log_Time (entry_sec e) (entry_nsec e))"
  using log_time_nsec_nanos [of "Log_Time (entry_sec e) (entry_nsec e)"] by (simp add: log_msg_nsec_def log_time_nsec_def)

text \<open>
  The pointer is into the buffer, with at least 25 bytes behind it; a message with the header of the
  structure and a length up to the limit of an entry lies in the buffer as a whole.
\<close>

lemma log_msg_in_buffer:
  assumes "log_msg_msg e = Some p"
  shows "p + 25 < LOGGER_ENTRY_MAX_LEN + 1"
  using assms by (auto simp: log_msg_msg_def log_read_sizes split: if_splits)

lemma log_msg_fits:
  assumes "unat (hdr_size e) = sizeof_entry" "unat (log_msg_len e) \<le> LOGGER_ENTRY_MAX_LEN"
  shows "log_msg_msg e = Some sizeof_entry \<and> sizeof_entry + unat (entry_len e) < LOGGER_ENTRY_MAX_LEN + 1"
  using assms unfolding log_msg_len_exact by (simp add: log_msg_msg_def log_read_sizes)

end
