(* ===== verification/Event_List.thy ===== *)
theory Event_List
  imports Prelude Log "HOL-Library.Word"
begin

text \<open>
  The class \<open>android_log_event_list\<close> of \<open>include/log/log_event_list.h\<close>, which builds a list of events and
  remembers what went wrong. The functions that encode and transmit the elements are
  not part of the repository: they are the fields of a record, which every method takes.
\<close>

section \<open>The functions the class is built on\<close>

text \<open>
  Each works on a context and returns its result with the context afterwards. A floating point number
  is given by its 32 bits, a C string is null or the string.
\<close>

record 'c event_lib =
  create_android_logger :: "32 word \<Rightarrow> 'c"
  android_log_destroy :: "'c \<Rightarrow> int \<times> 'c"
  android_log_write_list_begin :: "'c \<Rightarrow> int \<times> 'c"
  android_log_write_list_end :: "'c \<Rightarrow> int \<times> 'c"
  android_log_write_int32 :: "'c \<Rightarrow> 32 word \<Rightarrow> int \<times> 'c"
  android_log_write_int64 :: "'c \<Rightarrow> 64 word \<Rightarrow> int \<times> 'c"
  android_log_write_string8 :: "'c \<Rightarrow> string option \<Rightarrow> int \<times> 'c"
  android_log_write_string8_len :: "'c \<Rightarrow> string \<Rightarrow> nat \<Rightarrow> int \<times> 'c"
  android_log_write_float32 :: "'c \<Rightarrow> 32 word \<Rightarrow> int \<times> 'c"
  android_log_write_list :: "'c \<Rightarrow> int \<Rightarrow> int \<times> 'c"

section \<open>The class\<close>

record 'c event_list =
  ctx :: 'c
  ret :: int

definition LOG_ID_EVENTS :: int where "LOG_ID_EVENTS = 2"

definition event_list_new :: "'c event_lib \<Rightarrow> 32 word \<Rightarrow> 'c event_list" where
  "event_list_new E t = \<lparr>ctx = create_android_logger E t, ret = 0\<rparr>"

definition event_list_free :: "'c event_lib \<Rightarrow> 'c event_list \<Rightarrow> 'c event_list" where
  "event_list_free E s = s\<lparr>ctx := snd (android_log_destroy E (ctx s))\<rparr>"

text \<open>\<open>if (retval < 0) ret = retval;\<close>\<close>

definition keep_err :: "'c event_list \<Rightarrow> int \<times> 'c \<Rightarrow> 'c event_list" where
  "keep_err s rc = s\<lparr>ctx := snd rc, ret := (if fst rc < 0 then fst rc else ret s)\<rparr>"

definition event_list_close :: "'c event_lib \<Rightarrow> 'c event_list \<Rightarrow> int \<times> 'c event_list" where
  "event_list_close E s = (let rc = android_log_destroy E (ctx s) in (fst rc, keep_err s rc))"

definition event_list_status :: "'c event_list \<Rightarrow> int" where
  "event_list_status s = ret s"

definition event_list_begin :: "'c event_lib \<Rightarrow> 'c event_list \<Rightarrow> int \<times> 'c event_list" where
  "event_list_begin E s = (let s = keep_err s (android_log_write_list_begin E (ctx s)) in (ret s, s))"

definition event_list_end :: "'c event_lib \<Rightarrow> 'c event_list \<Rightarrow> int \<times> 'c event_list" where
  "event_list_end E s = (let s = keep_err s (android_log_write_list_end E (ctx s)) in (ret s, s))"

text \<open>The overloads of \<open>operator<<\<close> on values.\<close>

datatype elem =
  Int32 "32 word" | UInt32 "32 word" | Bool bool | Int64 "64 word" | UInt64 "64 word"
  | CString "string option" | StdString string | Float "32 word"

definition event_list_put :: "'c event_lib \<Rightarrow> 'c event_list \<Rightarrow> elem \<Rightarrow> 'c event_list" where
  "event_list_put E s e =
     (case e of
        Int32 v \<Rightarrow> keep_err s (android_log_write_int32 E (ctx s) v)
      | UInt32 v \<Rightarrow> keep_err s (android_log_write_int32 E (ctx s) v)
      | Bool v \<Rightarrow> keep_err s (android_log_write_int32 E (ctx s) (if v then 1 else 0))
      | Int64 v \<Rightarrow> keep_err s (android_log_write_int64 E (ctx s) v)
      | UInt64 v \<Rightarrow> keep_err s (android_log_write_int64 E (ctx s) v)
      | CString v \<Rightarrow> keep_err s (android_log_write_string8 E (ctx s) v)
      | StdString v \<Rightarrow> keep_err s (android_log_write_string8_len E (ctx s) v (length v))
      | Float v \<Rightarrow> keep_err s (android_log_write_float32 E (ctx s) v))"

definition event_list_write :: "'c event_lib \<Rightarrow> 'c event_list \<Rightarrow> int \<Rightarrow> int \<times> 'c event_list" where
  "event_list_write E s logid =
     (let s = (if ret s = - EBUSY \<or> 0 < ret s then s\<lparr>ret := 0\<rparr> else s);
          rc = android_log_write_list E (ctx s) logid;
          s = s\<lparr>ctx := snd rc, ret := (if ret s = 0 then fst rc else ret s)\<rparr>
      in (ret s, s))"

text \<open>\<open>operator<<\<close> on a log: transmit and destroy.\<close>

definition event_list_send :: "'c event_lib \<Rightarrow> 'c event_list \<Rightarrow> int \<Rightarrow> int \<times> 'c event_list" where
  "event_list_send E s logid =
     (let s = event_list_free E (snd (event_list_write E s logid)) in (ret s, s))"

definition AppendInt :: "'c event_lib \<Rightarrow> 'c event_list \<Rightarrow> 32 word \<Rightarrow> bool \<times> 'c event_list" where
  "AppendInt E s v = (let s = keep_err s (android_log_write_int32 E (ctx s) v) in (0 \<le> ret s, s))"

definition AppendLong :: "'c event_lib \<Rightarrow> 'c event_list \<Rightarrow> 64 word \<Rightarrow> bool \<times> 'c event_list" where
  "AppendLong E s v = (let s = keep_err s (android_log_write_int64 E (ctx s) v) in (0 \<le> ret s, s))"

definition AppendString :: "'c event_lib \<Rightarrow> 'c event_list \<Rightarrow> string option \<Rightarrow> bool \<times> 'c event_list" where
  "AppendString E s v = (let s = keep_err s (android_log_write_string8 E (ctx s) v) in (0 \<le> ret s, s))"

definition AppendString_len ::
  "'c event_lib \<Rightarrow> 'c event_list \<Rightarrow> string \<Rightarrow> nat \<Rightarrow> bool \<times> 'c event_list" where
  "AppendString_len E s v len =
     (let s = keep_err s (android_log_write_string8_len E (ctx s) v len) in (0 \<le> ret s, s))"

text \<open>The two methods on \<open>std::string\<close> return the status itself, converted to a boolean.\<close>

definition AppendString_std :: "'c event_lib \<Rightarrow> 'c event_list \<Rightarrow> string \<Rightarrow> bool \<times> 'c event_list" where
  "AppendString_std E s v =
     (let s = keep_err s (android_log_write_string8_len E (ctx s) v (length v)) in (ret s \<noteq> 0, s))"

definition Append_std :: "'c event_lib \<Rightarrow> 'c event_list \<Rightarrow> string \<Rightarrow> bool \<times> 'c event_list" where
  "Append_std E s v =
     (let s = keep_err s (android_log_write_string8_len E (ctx s) v (length v)) in (ret s \<noteq> 0, s))"

definition AppendFloat :: "'c event_lib \<Rightarrow> 'c event_list \<Rightarrow> 32 word \<Rightarrow> bool \<times> 'c event_list" where
  "AppendFloat E s v = (let s = keep_err s (android_log_write_float32 E (ctx s) v) in (0 \<le> ret s, s))"

definition Append :: "'c event_lib \<Rightarrow> 'c event_list \<Rightarrow> elem \<Rightarrow> bool \<times> 'c event_list" where
  "Append E s e = (let s = event_list_put E s e in (0 \<le> ret s, s))"

definition Append_len :: "'c event_lib \<Rightarrow> 'c event_list \<Rightarrow> string \<Rightarrow> nat \<Rightarrow> bool \<times> 'c event_list" where
  "Append_len E s v len =
     (let s = keep_err s (android_log_write_string8_len E (ctx s) v len) in (0 \<le> ret s, s))"

section \<open>Errors are kept\<close>

text \<open>What the library is called with for an element.\<close>

definition write_elem :: "'c event_lib \<Rightarrow> 'c \<Rightarrow> elem \<Rightarrow> int \<times> 'c" where
  "write_elem E c e =
     (case e of
        Int32 v \<Rightarrow> android_log_write_int32 E c v
      | UInt32 v \<Rightarrow> android_log_write_int32 E c v
      | Bool v \<Rightarrow> android_log_write_int32 E c (if v then 1 else 0)
      | Int64 v \<Rightarrow> android_log_write_int64 E c v
      | UInt64 v \<Rightarrow> android_log_write_int64 E c v
      | CString v \<Rightarrow> android_log_write_string8 E c v
      | StdString v \<Rightarrow> android_log_write_string8_len E c v (length v)
      | Float v \<Rightarrow> android_log_write_float32 E c v)"

fun write_results :: "'c event_lib \<Rightarrow> 'c \<Rightarrow> elem list \<Rightarrow> int list" where
  "write_results E c [] = []"
| "write_results E c (e # es) = (let rc = write_elem E c e in fst rc # write_results E (snd rc) es)"

definition put_all :: "'c event_lib \<Rightarrow> 'c event_list \<Rightarrow> elem list \<Rightarrow> 'c event_list" where
  "put_all E s es = fold (\<lambda>e s. event_list_put E s e) es s"

lemma event_list_put_eq: "event_list_put E s e = keep_err s (write_elem E (ctx s) e)"
  by (cases e) (simp_all add: event_list_put_def write_elem_def)

definition last_error :: "int \<Rightarrow> int list \<Rightarrow> int" where
  "last_error r rs = (case rev (filter (\<lambda>r. r < 0) rs) of [] \<Rightarrow> r | e # _ \<Rightarrow> e)"

lemma last_error_simps [simp]:
  "last_error r [] = r" "last_error r (x # rs) = last_error (if x < 0 then x else r) rs"
  by (auto simp: last_error_def split: list.splits)

text \<open>After any sequence of elements the status is the last error, and zero when there was none.\<close>

lemma event_list_status_last:
  "event_list_status (put_all E s es) = last_error (ret s) (write_results E (ctx s) es)"
  by (induction es arbitrary: s)
    (simp_all add: put_all_def event_list_status_def event_list_put_eq keep_err_def Let_def)

lemma last_error_neg: "r < 0 \<Longrightarrow> last_error r rs < 0"
  by (induction rs arbitrary: r) auto

lemma last_error_le: "r \<le> 0 \<Longrightarrow> last_error r rs \<le> 0"
  by (induction rs arbitrary: r) auto

lemma last_error_none: "last_error 0 rs = 0 \<longleftrightarrow> (\<forall>r \<in> set rs. 0 \<le> r)"
proof (induction rs)
  case (Cons x rs)
  then show ?case using last_error_neg [of x rs] by auto
qed simp

section \<open>Transmission\<close>

text \<open>
  A former error other than \<open>- EBUSY\<close> is what a write returns; otherwise the result of the transmission,
  so that a busy log can be tried again.
\<close>

lemma event_list_write_result:
  "fst (event_list_write E s logid) =
     (if ret s < 0 \<and> ret s \<noteq> - EBUSY then ret s else fst (android_log_write_list E (ctx s) logid))"
  by (auto simp: event_list_write_def Let_def)

text \<open>
  On a list without errors the appending of a \<open>std::string\<close> does what appending its bytes does and
  returns the opposite.
\<close>

lemma append_std_inverted:
  assumes "ret s = 0"
  shows "AppendString_std E s v = (\<not> fst (AppendString_len E s v (length v)), snd (AppendString_len E s v (length v)))"
    and "Append_std E s v = AppendString_std E s v"
  using assms by (auto simp: AppendString_std_def AppendString_len_def Append_std_def keep_err_def Let_def)

end
