(* ===== verification/Event_Log.thy ===== *)
theory Event_Log
  imports Prelude Log_Time "HOL-Library.Word"
begin

text \<open>
  Binary events: the macros \<open>LOG_EVENT_INT\<close>, \<open>LOG_EVENT_LONG\<close>, \<open>LOG_EVENT_FLOAT\<close> and \<open>LOG_EVENT_STRING\<close> of
  \<open>include/log/log.h\<close> over the functions that transmit an event, which are not part of the repository and are
  the fields of a record; and the packed structures of \<open>include/private/android_logger.h\<close> as the bytes that
  they are in memory. The lemmas show the sizes of the structures, that no two values of a structure
  share their bytes, and that the macros transmit the type and the data of the matching structure.
\<close>

section \<open>Numbers as bytes\<close>

text \<open>The little-endian representation of a number in \<open>n\<close> bytes.\<close>

fun le_bytes :: "nat \<Rightarrow> nat \<Rightarrow> string" where
  "le_bytes 0 x = []"
| "le_bytes (Suc n) x = char_of (x mod 256) # le_bytes n (x div 256)"

fun le_nat :: "string \<Rightarrow> nat" where
  "le_nat [] = 0"
| "le_nat (c # cs) = of_char c + 256 * le_nat cs"

lemma length_le_bytes [simp]: "length (le_bytes n x) = n"
  by (induction n x rule: le_bytes.induct) auto

lemma le_nat_le_bytes: "le_nat (le_bytes n x) = x mod 256 ^ n"
proof (induction n x rule: le_bytes.induct)
  case (2 n x)
  have "le_nat (le_bytes (Suc n) x) = x mod 256 + 256 * (x div 256 mod 256 ^ n)" using 2 by simp
  also have "\<dots> = x mod (256 * 256 ^ n)" by (simp add: mod_mult2_eq)
  finally show ?case by simp
qed simp

lemma le_bytes_inj:
  assumes "le_bytes n x = le_bytes n y" "x < 256 ^ n" "y < 256 ^ n"
  shows "x = y"
  using arg_cong [OF assms(1), of le_nat] assms(2,3) by (simp add: le_nat_le_bytes)

text \<open>A machine integer in memory.\<close>

definition word_bytes :: "'a::len word \<Rightarrow> string" where
  "word_bytes w = le_bytes (LENGTH('a) div 8) (unat w)"

lemma length_word_bytes [simp]: "length (word_bytes (w :: 'a::len word)) = LENGTH('a) div 8"
  by (simp add: word_bytes_def)

lemma word_bytes_inj [simp]:
  assumes "8 * (LENGTH('a) div 8) = LENGTH('a)"
  shows "word_bytes (v :: 'a::len word) = word_bytes w \<longleftrightarrow> v = w"
proof
  have "(256 :: nat) ^ (LENGTH('a) div 8) = 2 ^ (8 * (LENGTH('a) div 8))" by (simp add: power_mult)
  with assms have b: "unat x < 256 ^ (LENGTH('a) div 8)" for x :: "'a word" by simp
  assume "word_bytes v = word_bytes w"
  then have "unat v = unat w" unfolding word_bytes_def by (rule le_bytes_inj [OF _ b b])
  then show "v = w" by (simp add: word_unat_eq_iff)
qed simp

section \<open>Event types\<close>

datatype AndroidEventLogType =
  EVENT_TYPE_LIST_STOP | EVENT_TYPE_UNKNOWN | EVENT_TYPE_INT | EVENT_TYPE_LONG | EVENT_TYPE_STRING |
  EVENT_TYPE_LIST | EVENT_TYPE_FLOAT

fun event_type_code :: "AndroidEventLogType \<Rightarrow> 8 word" where
  "event_type_code EVENT_TYPE_LIST_STOP = 10"
| "event_type_code EVENT_TYPE_UNKNOWN = 63"
| "event_type_code EVENT_TYPE_INT = 0"
| "event_type_code EVENT_TYPE_LONG = 1"
| "event_type_code EVENT_TYPE_STRING = 2"
| "event_type_code EVENT_TYPE_LIST = 3"
| "event_type_code EVENT_TYPE_FLOAT = 4"

lemma event_type_code_inj: "event_type_code a = event_type_code b \<longleftrightarrow> a = b"
  by (cases a; cases b) auto

section \<open>The macros\<close>

text \<open>
  The transmitting functions: the tag, the type, the payload and its length, on the state \<open>'e\<close> of the
  device. A floating point number is given by its 32 bits.
\<close>

record 'e event_dev =
  android_log_bwrite :: "'e \<Rightarrow> 32 word \<Rightarrow> cmem \<Rightarrow> nat \<Rightarrow> int \<times> 'e"
  android_log_btwrite :: "'e \<Rightarrow> 32 word \<Rightarrow> 8 word \<Rightarrow> cmem \<Rightarrow> nat \<Rightarrow> int \<times> 'e"
  android_log_bswrite :: "'e \<Rightarrow> 32 word \<Rightarrow> string \<Rightarrow> int \<times> 'e"

definition android_bWriteLog :: "'e event_dev \<Rightarrow> 'e \<Rightarrow> 32 word \<Rightarrow> cmem \<Rightarrow> nat \<Rightarrow> int \<times> 'e" where
  "android_bWriteLog D e tag payload len = android_log_bwrite D e tag payload len"

definition android_btWriteLog :: "'e event_dev \<Rightarrow> 'e \<Rightarrow> 32 word \<Rightarrow> 8 word \<Rightarrow> cmem \<Rightarrow> nat \<Rightarrow> int \<times> 'e" where
  "android_btWriteLog D e tag type payload len = android_log_btwrite D e tag type payload len"

text \<open>The value is an expression of any integer type, converted by the initialisation of the buffer.\<close>

definition LOG_EVENT_INT :: "'e event_dev \<Rightarrow> 'e \<Rightarrow> 32 word \<Rightarrow> int \<Rightarrow> 'e" where
  "LOG_EVENT_INT D e tag value =
     (let intBuf = word_of_int value :: 32 word
      in snd (android_btWriteLog D e tag (event_type_code EVENT_TYPE_INT) (word_bytes intBuf) 4))"

definition LOG_EVENT_LONG :: "'e event_dev \<Rightarrow> 'e \<Rightarrow> 32 word \<Rightarrow> int \<Rightarrow> 'e" where
  "LOG_EVENT_LONG D e tag value =
     (let longBuf = word_of_int value :: 64 word
      in snd (android_btWriteLog D e tag (event_type_code EVENT_TYPE_LONG) (word_bytes longBuf) 8))"

definition LOG_EVENT_FLOAT :: "'e event_dev \<Rightarrow> 'e \<Rightarrow> 32 word \<Rightarrow> 32 word \<Rightarrow> 'e" where
  "LOG_EVENT_FLOAT D e tag floatBuf =
     snd (android_btWriteLog D e tag (event_type_code EVENT_TYPE_FLOAT) (word_bytes floatBuf) 4)"

definition LOG_EVENT_STRING :: "'e event_dev \<Rightarrow> 'e \<Rightarrow> 32 word \<Rightarrow> string \<Rightarrow> 'e" where
  "LOG_EVENT_STRING D e tag value = snd (android_log_bswrite D e tag value)"

section \<open>Packed structures\<close>

text \<open>Each structure with its bytes in memory; a byte field is a word of eight bits.\<close>

record android_pmsg_log_header =
  pmsg_magic :: "8 word"
  pmsg_len :: "16 word"
  pmsg_uid :: "16 word"
  pmsg_pid :: "16 word"

definition LOGGER_MAGIC :: "8 word" where "LOGGER_MAGIC = 108"

definition pmsg_header_bytes :: "android_pmsg_log_header \<Rightarrow> string" where
  "pmsg_header_bytes h = word_bytes (pmsg_magic h) @ word_bytes (pmsg_len h) @ word_bytes (pmsg_uid h) @ word_bytes (pmsg_pid h)"

record android_log_header =
  header_id :: "8 word"
  header_tid :: "16 word"
  header_realtime :: log_time

definition log_header_bytes :: "android_log_header \<Rightarrow> string" where
  "log_header_bytes h = word_bytes (header_id h) @ word_bytes (header_tid h) @
     word_bytes (tv_sec (header_realtime h)) @ word_bytes (tv_nsec (header_realtime h))"

definition event_header_bytes :: "32 word \<Rightarrow> string" where
  "event_header_bytes tag = word_bytes tag"

text \<open>
  The payloads: a list with its number of elements, a number, a string with its length. Behind the
  payload header of a string its bytes follow.
\<close>

datatype event_payload =
  Ev_List "8 word" | Ev_Float "32 word" | Ev_Int "32 word" | Ev_Long "64 word" | Ev_String "32 word" string

fun payload_type :: "event_payload \<Rightarrow> AndroidEventLogType" where
  "payload_type (Ev_List n) = EVENT_TYPE_LIST"
| "payload_type (Ev_Float f) = EVENT_TYPE_FLOAT"
| "payload_type (Ev_Int i) = EVENT_TYPE_INT"
| "payload_type (Ev_Long i) = EVENT_TYPE_LONG"
| "payload_type (Ev_String n s) = EVENT_TYPE_STRING"

fun payload_data :: "event_payload \<Rightarrow> string" where
  "payload_data (Ev_List n) = word_bytes n"
| "payload_data (Ev_Float f) = word_bytes f"
| "payload_data (Ev_Int i) = word_bytes i"
| "payload_data (Ev_Long i) = word_bytes i"
| "payload_data (Ev_String n s) = word_bytes n @ s"

definition payload_bytes :: "event_payload \<Rightarrow> string" where
  "payload_bytes p = word_bytes (event_type_code (payload_type p)) @ payload_data p"

definition event_bytes :: "32 word \<Rightarrow> event_payload \<Rightarrow> string" where
  "event_bytes tag p = event_header_bytes tag @ payload_bytes p"

section \<open>What the layout guarantees\<close>

lemma packed_sizes:
  "length (pmsg_header_bytes h) = 7" "length (log_header_bytes l) = 11" "length (event_header_bytes tag) = 4"
  "length (event_bytes tag (Ev_Int i)) = 9" "length (event_bytes tag (Ev_Long j)) = 13"
  by (simp_all add: pmsg_header_bytes_def log_header_bytes_def event_header_bytes_def event_bytes_def payload_bytes_def)

lemma header_bytes_inj:
  "pmsg_header_bytes g = pmsg_header_bytes h \<longleftrightarrow> g = h" "log_header_bytes k = log_header_bytes l \<longleftrightarrow> k = l"
  by (auto simp: pmsg_header_bytes_def log_header_bytes_def log_time.expand)

lemma payload_data_inj: "payload_type p = payload_type q \<Longrightarrow> payload_data p = payload_data q \<longleftrightarrow> p = q"
  by (cases p; cases q) auto

text \<open>An event is determined by its bytes: the tag, the type and the data.\<close>

theorem event_bytes_inj: "event_bytes t p = event_bytes u q \<longleftrightarrow> t = u \<and> p = q"
proof -
  have "event_bytes t p = event_bytes u q \<longleftrightarrow>
      t = u \<and> payload_type p = payload_type q \<and> payload_data p = payload_data q"
    by (simp add: event_bytes_def event_header_bytes_def payload_bytes_def event_type_code_inj)
  then show ?thesis using payload_data_inj [of p q] by auto
qed

text \<open>
  What the macros transmit: a device that keeps the bytes of every event receives those of the structure,
  with the value reduced to the width of the type.
\<close>

definition byte_dev :: "string list event_dev" where
  "byte_dev = \<lparr>android_log_bwrite = \<lambda>e tag payload len. (0, e @ [event_header_bytes tag @ take len payload]),
     android_log_btwrite = \<lambda>e tag type payload len. (0, e @ [event_header_bytes tag @ word_bytes type @ take len payload]),
     android_log_bswrite = \<lambda>e tag s. (0, e @ [event_bytes tag (Ev_String (of_nat (length s)) s)])\<rparr>"

theorem macros_transmit:
  "LOG_EVENT_INT byte_dev e tag i = e @ [event_bytes tag (Ev_Int (word_of_int i))]"
  "LOG_EVENT_LONG byte_dev e tag i = e @ [event_bytes tag (Ev_Long (word_of_int i))]"
  "LOG_EVENT_FLOAT byte_dev e tag f = e @ [event_bytes tag (Ev_Float f)]"
  "LOG_EVENT_STRING byte_dev e tag s = e @ [event_bytes tag (Ev_String (of_nat (length s)) s)]"
  by (simp_all add: byte_dev_def LOG_EVENT_INT_def LOG_EVENT_LONG_def LOG_EVENT_FLOAT_def LOG_EVENT_STRING_def
      android_btWriteLog_def event_bytes_def payload_bytes_def)

end
