(* ===== verification/Trace.thy ===== *)
theory Trace
  imports Libc
begin

text \<open>
  Tracing: the tags and the guarded functions of \<open>include/cutils/trace.h\<close>, the notes that \<open>trace/trace.c\<close> writes
  for them, and the command \<open>trace/atrace.c\<close> that selects the enabled tags.
\<close>

unbundle bit_operations_syntax

named_theorems atrace_tags \<open>values of the trace tags\<close>

section \<open>Tags\<close>

definition ATRACE_TAG_NEVER :: "64 word" where [atrace_tags]: "ATRACE_TAG_NEVER = 0"
definition ATRACE_TAG_ALWAYS :: "64 word" where [atrace_tags]: "ATRACE_TAG_ALWAYS = push_bit 0 1"
definition ATRACE_TAG_GRAPHICS :: "64 word" where [atrace_tags]: "ATRACE_TAG_GRAPHICS = push_bit 1 1"
definition ATRACE_TAG_INPUT :: "64 word" where [atrace_tags]: "ATRACE_TAG_INPUT = push_bit 2 1"
definition ATRACE_TAG_VIEW :: "64 word" where [atrace_tags]: "ATRACE_TAG_VIEW = push_bit 3 1"
definition ATRACE_TAG_WEBVIEW :: "64 word" where [atrace_tags]: "ATRACE_TAG_WEBVIEW = push_bit 4 1"
definition ATRACE_TAG_WINDOW_MANAGER :: "64 word" where [atrace_tags]: "ATRACE_TAG_WINDOW_MANAGER = push_bit 5 1"
definition ATRACE_TAG_ACTIVITY_MANAGER :: "64 word" where [atrace_tags]: "ATRACE_TAG_ACTIVITY_MANAGER = push_bit 6 1"
definition ATRACE_TAG_SYNC_MANAGER :: "64 word" where [atrace_tags]: "ATRACE_TAG_SYNC_MANAGER = push_bit 7 1"
definition ATRACE_TAG_AUDIO :: "64 word" where [atrace_tags]: "ATRACE_TAG_AUDIO = push_bit 8 1"
definition ATRACE_TAG_VIDEO :: "64 word" where [atrace_tags]: "ATRACE_TAG_VIDEO = push_bit 9 1"
definition ATRACE_TAG_CAMERA :: "64 word" where [atrace_tags]: "ATRACE_TAG_CAMERA = push_bit 10 1"
definition ATRACE_TAG_HAL :: "64 word" where [atrace_tags]: "ATRACE_TAG_HAL = push_bit 11 1"
definition ATRACE_TAG_APP :: "64 word" where [atrace_tags]: "ATRACE_TAG_APP = push_bit 12 1"
definition ATRACE_TAG_RESOURCES :: "64 word" where [atrace_tags]: "ATRACE_TAG_RESOURCES = push_bit 13 1"
definition ATRACE_TAG_DALVIK :: "64 word" where [atrace_tags]: "ATRACE_TAG_DALVIK = push_bit 14 1"
definition ATRACE_TAG_RS :: "64 word" where [atrace_tags]: "ATRACE_TAG_RS = push_bit 15 1"
definition ATRACE_TAG_BIONIC :: "64 word" where [atrace_tags]: "ATRACE_TAG_BIONIC = push_bit 16 1"
definition ATRACE_TAG_POWER :: "64 word" where [atrace_tags]: "ATRACE_TAG_POWER = push_bit 17 1"
definition ATRACE_TAG_PACKAGE_MANAGER :: "64 word" where [atrace_tags]: "ATRACE_TAG_PACKAGE_MANAGER = push_bit 18 1"
definition ATRACE_TAG_SYSTEM_SERVER :: "64 word" where [atrace_tags]: "ATRACE_TAG_SYSTEM_SERVER = push_bit 19 1"
definition ATRACE_TAG_DATABASE :: "64 word" where [atrace_tags]: "ATRACE_TAG_DATABASE = push_bit 20 1"
definition ATRACE_TAG_NETWORK :: "64 word" where [atrace_tags]: "ATRACE_TAG_NETWORK = push_bit 21 1"
definition ATRACE_TAG_ADB :: "64 word" where [atrace_tags]: "ATRACE_TAG_ADB = push_bit 22 1"
definition ATRACE_TAG_VIBRATOR :: "64 word" where [atrace_tags]: "ATRACE_TAG_VIBRATOR = push_bit 23 1"
definition ATRACE_TAG_AIDL :: "64 word" where [atrace_tags]: "ATRACE_TAG_AIDL = push_bit 24 1"
definition ATRACE_TAG_NNAPI :: "64 word" where [atrace_tags]: "ATRACE_TAG_NNAPI = push_bit 25 1"
definition ATRACE_TAG_RRO :: "64 word" where [atrace_tags]: "ATRACE_TAG_RRO = push_bit 26 1"
definition ATRACE_TAG_THERMAL :: "64 word" where [atrace_tags]: "ATRACE_TAG_THERMAL = push_bit 27 1"

text \<open>A category of the command: its tag, its name and its description.\<close>

record atrace_category =
  cat_tag :: "64 word"
  cat_name :: string
  cat_help :: string

definition category :: "64 word \<Rightarrow> string \<Rightarrow> string \<Rightarrow> atrace_category" where
  "category t n h = \<lparr>cat_tag = t, cat_name = n, cat_help = h\<rparr>"

definition category_list :: "atrace_category list" where
  "category_list =
     [category ATRACE_TAG_NEVER ''never'' ''never output trace'',
      category ATRACE_TAG_ALWAYS ''always'' ''always output trace'',
      category ATRACE_TAG_GRAPHICS ''gfx'' ''graphics'',
      category ATRACE_TAG_INPUT ''input'' ''input'',
      category ATRACE_TAG_VIEW ''view'' ''view'',
      category ATRACE_TAG_WEBVIEW ''webview'' ''webview'',
      category ATRACE_TAG_WINDOW_MANAGER ''wm'' ''window_manager'',
      category ATRACE_TAG_ACTIVITY_MANAGER ''am'' ''activity_manager'',
      category ATRACE_TAG_SYNC_MANAGER ''sm'' ''sync_manager'',
      category ATRACE_TAG_AUDIO ''audio'' ''audio'',
      category ATRACE_TAG_VIDEO ''video'' ''video'',
      category ATRACE_TAG_CAMERA ''camera'' ''camera'',
      category ATRACE_TAG_HAL ''hal'' ''hal'',
      category ATRACE_TAG_APP ''app'' ''app'',
      category ATRACE_TAG_RESOURCES ''res'' ''resources'',
      category ATRACE_TAG_DALVIK ''dalvik'' ''dalvik'',
      category ATRACE_TAG_RS ''rs'' ''rs'',
      category ATRACE_TAG_BIONIC ''bionic'' ''bionic'',
      category ATRACE_TAG_POWER ''power'' ''power'',
      category ATRACE_TAG_PACKAGE_MANAGER ''pm'' ''package_manager'',
      category ATRACE_TAG_SYSTEM_SERVER ''ss'' ''system_server'',
      category ATRACE_TAG_DATABASE ''db'' ''database'',
      category ATRACE_TAG_NETWORK ''net'' ''network'',
      category ATRACE_TAG_ADB ''adb'' ''adb'',
      category ATRACE_TAG_VIBRATOR ''vibrator'' ''vibrator'',
      category ATRACE_TAG_AIDL ''aidl'' ''aidl'',
      category ATRACE_TAG_NNAPI ''nnapi'' ''nnapi'',
      category ATRACE_TAG_RRO ''rro'' ''rro'',
      category ATRACE_TAG_THERMAL ''thermal'' ''thermal'']"

section \<open>Trace points\<close>

text \<open>The enabled tags, the number of the thread, the notes written so far and the output of the command.\<close>

record trace =
  atrace_enabled_tags :: "64 word"
  tid :: int
  notes_out :: "string list"
  term_out :: string

definition atrace_get_enabled_tags :: "trace \<Rightarrow> 64 word" where
  "atrace_get_enabled_tags t = atrace_enabled_tags t"

definition atrace_is_tag_enabled :: "trace \<Rightarrow> 64 word \<Rightarrow> 64 word" where
  "atrace_is_tag_enabled t tag = (atrace_get_enabled_tags t AND tag)"

definition sched_note :: "trace \<Rightarrow> string \<Rightarrow> trace" where
  "sched_note t s = t\<lparr>notes_out := notes_out t @ [s]\<rparr>"

text \<open>The functions of \<open>trace.c\<close>; \<open>atrace_init\<close>, \<open>atrace_setup\<close>, \<open>atrace_update_tags\<close> and the two setters do nothing.\<close>

definition atrace_init :: "trace \<Rightarrow> trace" where "atrace_init t = t"

definition atrace_setup :: "trace \<Rightarrow> trace" where "atrace_setup t = t"

definition atrace_update_tags :: "trace \<Rightarrow> trace" where "atrace_update_tags t = t"

definition atrace_set_debuggable :: "trace \<Rightarrow> bool \<Rightarrow> trace" where "atrace_set_debuggable t debuggable = t"

definition atrace_set_tracing_enabled :: "trace \<Rightarrow> bool \<Rightarrow> trace" where "atrace_set_tracing_enabled t enabled = t"

definition atrace_begin_body :: "trace \<Rightarrow> string \<Rightarrow> trace" where
  "atrace_begin_body t name = sched_note t (''B|'' @ show_int (tid t) @ ''|'' @ name)"

definition atrace_end_body :: "trace \<Rightarrow> trace" where
  "atrace_end_body t = sched_note t (''E|'' @ show_int (tid t))"

definition atrace_async_begin_body :: "trace \<Rightarrow> string \<Rightarrow> 32 word \<Rightarrow> trace" where
  "atrace_async_begin_body t name cookie =
     sched_note t (''S|'' @ show_int (tid t) @ ''|'' @ name @ ''|'' @ show_int (sint cookie))"

definition atrace_async_end_body :: "trace \<Rightarrow> string \<Rightarrow> 32 word \<Rightarrow> trace" where
  "atrace_async_end_body t name cookie =
     sched_note t (''F|'' @ show_int (tid t) @ ''|'' @ name @ ''|'' @ show_int (sint cookie))"

definition atrace_async_for_track_begin_body :: "trace \<Rightarrow> string \<Rightarrow> string \<Rightarrow> 32 word \<Rightarrow> trace" where
  "atrace_async_for_track_begin_body t track_name name cookie =
     sched_note t (''G|'' @ show_int (tid t) @ ''|'' @ track_name @ ''|'' @ name @ ''|'' @ show_int (sint cookie))"

definition atrace_async_for_track_end_body :: "trace \<Rightarrow> string \<Rightarrow> string \<Rightarrow> 32 word \<Rightarrow> trace" where
  "atrace_async_for_track_end_body t track_name name cookie =
     sched_note t (''H|'' @ show_int (tid t) @ ''|'' @ track_name @ ''|'' @ name @ ''|'' @ show_int (sint cookie))"

definition atrace_instant_body :: "trace \<Rightarrow> string \<Rightarrow> trace" where
  "atrace_instant_body t name = sched_note t (''I|'' @ show_int (tid t) @ ''|'' @ name)"

definition atrace_instant_for_track_body :: "trace \<Rightarrow> string \<Rightarrow> string \<Rightarrow> trace" where
  "atrace_instant_for_track_body t track_name name =
     sched_note t (''N|'' @ show_int (tid t) @ ''|'' @ track_name @ ''|'' @ name)"

definition atrace_int_body :: "trace \<Rightarrow> string \<Rightarrow> 32 word \<Rightarrow> trace" where
  "atrace_int_body t name v =
     sched_note t (''C|'' @ show_int (tid t) @ ''|'' @ name @ ''|'' @ show_int (sint v))"

definition atrace_int64_body :: "trace \<Rightarrow> string \<Rightarrow> 64 word \<Rightarrow> trace" where
  "atrace_int64_body t name v =
     sched_note t (''C|'' @ show_int (tid t) @ ''|'' @ name @ ''|'' @ show_int (sint v))"

text \<open>The inline functions of the header: each writes its note when its tag is enabled.\<close>

definition atrace_begin :: "trace \<Rightarrow> 64 word \<Rightarrow> string \<Rightarrow> trace" where
  "atrace_begin t tag name = (if atrace_is_tag_enabled t tag \<noteq> 0 then atrace_begin_body t name else t)"

definition atrace_end :: "trace \<Rightarrow> 64 word \<Rightarrow> trace" where
  "atrace_end t tag = (if atrace_is_tag_enabled t tag \<noteq> 0 then atrace_end_body t else t)"

definition atrace_async_begin :: "trace \<Rightarrow> 64 word \<Rightarrow> string \<Rightarrow> 32 word \<Rightarrow> trace" where
  "atrace_async_begin t tag name cookie =
     (if atrace_is_tag_enabled t tag \<noteq> 0 then atrace_async_begin_body t name cookie else t)"

definition atrace_async_end :: "trace \<Rightarrow> 64 word \<Rightarrow> string \<Rightarrow> 32 word \<Rightarrow> trace" where
  "atrace_async_end t tag name cookie =
     (if atrace_is_tag_enabled t tag \<noteq> 0 then atrace_async_end_body t name cookie else t)"

definition atrace_async_for_track_begin :: "trace \<Rightarrow> 64 word \<Rightarrow> string \<Rightarrow> string \<Rightarrow> 32 word \<Rightarrow> trace" where
  "atrace_async_for_track_begin t tag track_name name cookie =
     (if atrace_is_tag_enabled t tag \<noteq> 0 then atrace_async_for_track_begin_body t track_name name cookie else t)"

definition atrace_async_for_track_end :: "trace \<Rightarrow> 64 word \<Rightarrow> string \<Rightarrow> string \<Rightarrow> 32 word \<Rightarrow> trace" where
  "atrace_async_for_track_end t tag track_name name cookie =
     (if atrace_is_tag_enabled t tag \<noteq> 0 then atrace_async_for_track_end_body t track_name name cookie else t)"

definition atrace_instant :: "trace \<Rightarrow> 64 word \<Rightarrow> string \<Rightarrow> trace" where
  "atrace_instant t tag name = (if atrace_is_tag_enabled t tag \<noteq> 0 then atrace_instant_body t name else t)"

definition atrace_instant_for_track :: "trace \<Rightarrow> 64 word \<Rightarrow> string \<Rightarrow> string \<Rightarrow> trace" where
  "atrace_instant_for_track t tag track_name name =
     (if atrace_is_tag_enabled t tag \<noteq> 0 then atrace_instant_for_track_body t track_name name else t)"

definition atrace_int :: "trace \<Rightarrow> 64 word \<Rightarrow> string \<Rightarrow> 32 word \<Rightarrow> trace" where
  "atrace_int t tag name v = (if atrace_is_tag_enabled t tag \<noteq> 0 then atrace_int_body t name v else t)"

definition atrace_int64 :: "trace \<Rightarrow> 64 word \<Rightarrow> string \<Rightarrow> 64 word \<Rightarrow> trace" where
  "atrace_int64 t tag name v = (if atrace_is_tag_enabled t tag \<noteq> 0 then atrace_int64_body t name v else t)"

section \<open>The macros\<close>

text \<open>
  The macros of \<open>trace.h\<close> call the inline functions with the tag \<open>ATRACE_TAG\<close> of the file that includes the header,
  which is \<open>ATRACE_TAG_NEVER\<close> when the file does not define one; here an argument.
\<close>

definition ATRACE_TAG_LAST :: "64 word" where [atrace_tags]: "ATRACE_TAG_LAST = ATRACE_TAG_THERMAL"

definition ATRACE_TAG_NOT_READY :: "64 word" where "ATRACE_TAG_NOT_READY = push_bit 63 1"

definition ATRACE_TAG_VALID_MASK :: "64 word" where
  "ATRACE_TAG_VALID_MASK = (ATRACE_TAG_LAST - 1) OR ATRACE_TAG_LAST"

definition ATRACE_INIT :: "trace \<Rightarrow> trace" where "ATRACE_INIT t = atrace_init t"

definition ATRACE_GET_ENABLED_TAGS :: "trace \<Rightarrow> 64 word" where
  "ATRACE_GET_ENABLED_TAGS t = atrace_get_enabled_tags t"

definition ATRACE_ENABLED :: "64 word \<Rightarrow> trace \<Rightarrow> 64 word" where
  "ATRACE_ENABLED ATRACE_TAG t = atrace_is_tag_enabled t ATRACE_TAG"

definition ATRACE_BEGIN :: "64 word \<Rightarrow> trace \<Rightarrow> string \<Rightarrow> trace" where
  "ATRACE_BEGIN ATRACE_TAG t name = atrace_begin t ATRACE_TAG name"

definition ATRACE_END :: "64 word \<Rightarrow> trace \<Rightarrow> trace" where
  "ATRACE_END ATRACE_TAG t = atrace_end t ATRACE_TAG"

definition ATRACE_ASYNC_BEGIN :: "64 word \<Rightarrow> trace \<Rightarrow> string \<Rightarrow> 32 word \<Rightarrow> trace" where
  "ATRACE_ASYNC_BEGIN ATRACE_TAG t name cookie = atrace_async_begin t ATRACE_TAG name cookie"

definition ATRACE_ASYNC_END :: "64 word \<Rightarrow> trace \<Rightarrow> string \<Rightarrow> 32 word \<Rightarrow> trace" where
  "ATRACE_ASYNC_END ATRACE_TAG t name cookie = atrace_async_end t ATRACE_TAG name cookie"

definition ATRACE_ASYNC_FOR_TRACK_BEGIN :: "64 word \<Rightarrow> trace \<Rightarrow> string \<Rightarrow> string \<Rightarrow> 32 word \<Rightarrow> trace" where
  "ATRACE_ASYNC_FOR_TRACK_BEGIN ATRACE_TAG t track_name name cookie =
     atrace_async_for_track_begin t ATRACE_TAG track_name name cookie"

definition ATRACE_ASYNC_FOR_TRACK_END :: "64 word \<Rightarrow> trace \<Rightarrow> string \<Rightarrow> string \<Rightarrow> 32 word \<Rightarrow> trace" where
  "ATRACE_ASYNC_FOR_TRACK_END ATRACE_TAG t track_name name cookie =
     atrace_async_for_track_end t ATRACE_TAG track_name name cookie"

definition ATRACE_INSTANT :: "64 word \<Rightarrow> trace \<Rightarrow> string \<Rightarrow> trace" where
  "ATRACE_INSTANT ATRACE_TAG t name = atrace_instant t ATRACE_TAG name"

definition ATRACE_INSTANT_FOR_TRACK :: "64 word \<Rightarrow> trace \<Rightarrow> string \<Rightarrow> string \<Rightarrow> trace" where
  "ATRACE_INSTANT_FOR_TRACK ATRACE_TAG t track_name name = atrace_instant_for_track t ATRACE_TAG track_name name"

definition ATRACE_INT :: "64 word \<Rightarrow> trace \<Rightarrow> string \<Rightarrow> 32 word \<Rightarrow> trace" where
  "ATRACE_INT ATRACE_TAG t name v = atrace_int t ATRACE_TAG name v"

definition ATRACE_INT64 :: "64 word \<Rightarrow> trace \<Rightarrow> string \<Rightarrow> 64 word \<Rightarrow> trace" where
  "ATRACE_INT64 ATRACE_TAG t name v = atrace_int64 t ATRACE_TAG name v"

lemmas atrace_macros = ATRACE_ENABLED_def ATRACE_BEGIN_def ATRACE_END_def ATRACE_ASYNC_BEGIN_def ATRACE_ASYNC_END_def
  ATRACE_ASYNC_FOR_TRACK_BEGIN_def ATRACE_ASYNC_FOR_TRACK_END_def ATRACE_INSTANT_def ATRACE_INSTANT_FOR_TRACK_def
  ATRACE_INT_def ATRACE_INT64_def

lemmas atrace_inline = atrace_begin_def atrace_end_def atrace_async_begin_def atrace_async_end_def
  atrace_async_for_track_begin_def atrace_async_for_track_end_def atrace_instant_def atrace_instant_for_track_def
  atrace_int_def atrace_int64_def

section \<open>The command\<close>

definition print_line :: "trace \<Rightarrow> string \<Rightarrow> trace" where
  "print_line t s = t\<lparr>term_out := term_out t @ s @ [CHR 0x0A]\<rparr>"

definition atrace_help :: "trace \<Rightarrow> string \<Rightarrow> int \<times> trace" where
  "atrace_help t progname =
     (0, fold (\<lambda>s t. print_line t s)
        [''Usage: '' @ progname @ '' [option] [categories...]'', ''options include:'', ''  --list_categories'',
         ''                  list the available tracing categories''] t)"

definition atrace_list :: "trace \<Rightarrow> int \<times> trace" where
  "atrace_list t =
     (0, fold (\<lambda>c t. print_line t ([CHR 0x09] @ cat_name c @ '': '' @ cat_help c)) category_list
        (print_line t ''Available categories:''))"

text \<open>
  The loop over the arguments. \<open>j\<close> is the variable the search leaves behind: its value before the first
  search is whatever the stack holds. The result is the name that is not known or the tags.
\<close>

definition find_category :: "string \<Rightarrow> nat" where
  "find_category a = 2 + length (takeWhile (\<lambda>c. cat_name c \<noteq> a) (drop 2 category_list))"

fun category_loop :: "string list \<Rightarrow> nat \<Rightarrow> 64 word \<Rightarrow> string + 64 word" where
  "category_loop [] j tag = Inr tag"
| "category_loop (a # args) j tag =
     (case (if a = ''always'' then (j, - 1)
            else if a = ''never'' then (j, 0)
            else (let j = find_category a
                  in (j, if j < length category_list then tag OR cat_tag (category_list ! j) else tag))) of
        (j, tag) \<Rightarrow> if j = length category_list then Inl a else category_loop args j tag)"

definition run_category :: "nat \<Rightarrow> trace \<Rightarrow> string list \<Rightarrow> int \<times> trace" where
  "run_category j t argv =
     (case category_loop (tl argv) j 0 of
        Inl a \<Rightarrow> (- EINVAL, t\<lparr>term_out := term_out t @ ''Unknown category: '' @ a\<rparr>)
      | Inr tag \<Rightarrow>
          (0, print_line (t\<lparr>atrace_enabled_tags := tag\<rparr>)
                (''Android tracing enabled with tag: '' @ (if tag = 0 then ''0'' else ''0x'' @ show_hex (unat tag)))))"

definition atrace_main :: "nat \<Rightarrow> trace \<Rightarrow> string list \<Rightarrow> int \<times> trace" where
  "atrace_main j t argv =
     (if length argv < 2 then (1, snd (atrace_help t (argv ! 0)))
      else if argv ! 1 = ''--list_categories'' then atrace_list t
      else run_category j t argv)"

section \<open>Exactly the named categories are enabled\<close>

definition categories :: "atrace_category list" where
  "categories = drop 2 category_list"

lemma length_category_list [simp]: "length category_list = 29"
  by (simp add: category_list_def)

lemma find_category_less:
  "find_category a < length category_list \<longleftrightarrow> a \<in> cat_name ` set categories"
proof -
  have "length categories = 27" by (simp add: categories_def)
  moreover have "length (takeWhile (\<lambda>c. cat_name c \<noteq> a) categories) < length categories \<longleftrightarrow>
      (\<exists>c \<in> set categories. cat_name c = a)"
    using takeWhile_eq_all_conv [of "\<lambda>c. cat_name c \<noteq> a" categories]
      length_takeWhile_le [of "\<lambda>c. cat_name c \<noteq> a" categories] take_all_iff takeWhile_eq_take
    by (metis linorder_not_less)
  ultimately show ?thesis by (auto simp: find_category_def categories_def)
qed

lemma find_category_name:
  assumes "a \<in> cat_name ` set categories"
  shows "category_list ! find_category a \<in> set categories \<and> cat_name (category_list ! find_category a) = a"
proof -
  let ?n = "length (takeWhile (\<lambda>c. cat_name c \<noteq> a) categories)"
  have n: "?n < length categories"
    using assms find_category_less [of a] by (simp add: find_category_def categories_def)
  have "cat_name (categories ! ?n) = a" using nth_length_takeWhile [OF n] by simp
  moreover have "category_list ! find_category a = categories ! ?n" by (simp add: find_category_def categories_def)
  ultimately show ?thesis using n by simp
qed

text \<open>The tags of two categories overlap exactly when they are the same category.\<close>

lemma categories_tags: "map cat_tag categories = map (\<lambda>i. push_bit i 1) [1..<28]"
  by (simp add: categories_def category_list_def category_def atrace_tags upt_rec [of _ 28])

lemma categories_names: "distinct (map cat_name categories)"
  by (simp add: categories_def category_list_def category_def)

lemma single_bits:
  assumes "a < 64" "b < 64"
  shows "(push_bit a 1 AND push_bit b (1 :: 64 word) = 0) \<longleftrightarrow> a \<noteq> b"
proof
  assume "push_bit a 1 AND push_bit b (1 :: 64 word) = 0"
  then have "\<not> bit (push_bit a 1 AND push_bit b (1 :: 64 word)) a" by simp
  with assms show "a \<noteq> b" by (auto simp: bit_simps)
next
  assume "a \<noteq> b"
  then show "push_bit a 1 AND push_bit b (1 :: 64 word) = 0" by (intro bit_word_eqI) (auto simp: bit_simps)
qed

lemma categories_nth:
  assumes "c \<in> set categories"
  obtains i where "i < 27" "c = categories ! i" "cat_tag c = push_bit (Suc i) 1"
proof -
  have len: "length categories = 27" by (simp add: categories_def)
  with assms obtain i where i: "i < 27" "c = categories ! i" by (metis in_set_conv_nth)
  have "cat_tag c = map cat_tag categories ! i" using i len by simp
  also have "\<dots> = push_bit ([1..<28] ! i) 1" using i unfolding categories_tags by (simp only: nth_map length_upt)
  also have "[1..<28] ! i = Suc i" using i by (simp only: nth_upt)
  finally show ?thesis using that i by blast
qed

lemma categories_disjoint:
  assumes "c \<in> set categories" "d \<in> set categories"
  shows "(cat_tag c AND cat_tag d = 0) \<longleftrightarrow> cat_name c \<noteq> cat_name d"
proof -
  obtain i where i: "i < 27" "c = categories ! i" "cat_tag c = push_bit (Suc i) 1"
    using assms(1) by (rule categories_nth)
  obtain j where j: "j < 27" "d = categories ! j" "cat_tag d = push_bit (Suc j) 1"
    using assms(2) by (rule categories_nth)
  have len: "length categories = 27" by (simp add: categories_def)
  have "cat_name c = cat_name d \<longleftrightarrow> i = j"
    using categories_names i j len by (simp add: nth_eq_iff_index_eq [of "map cat_name categories", symmetric])
  then show ?thesis using single_bits [of "Suc i" "Suc j"] i j by simp
qed

text \<open>Known names leave the tags of their categories, whatever the stack held.\<close>

lemma category_loop_known:
  assumes "set args \<subseteq> cat_name ` set categories"
  shows "\<exists>w. category_loop args j tag = Inr w \<and>
    (\<forall>c \<in> set categories. (w AND cat_tag c = 0) \<longleftrightarrow> tag AND cat_tag c = 0 \<and> cat_name c \<notin> set args)"
  using assms
proof (induction args arbitrary: j tag)
  case (Cons a args)
  let ?c = "category_list ! find_category a"
  have a: "a \<in> cat_name ` set categories" using Cons.prems by simp
  have less: "find_category a < 29" using a find_category_less [of a] by simp
  have c: "?c \<in> set categories" "cat_name ?c = a" using find_category_name [OF a] by auto
  have "a \<noteq> ''always'' \<and> a \<noteq> ''never''"
    using a by (auto simp: categories_def category_list_def category_def)
  with less have step: "category_loop (a # args) j tag = category_loop args (find_category a) (tag OR cat_tag ?c)"
    by (simp add: Let_def)
  obtain w where w: "category_loop args (find_category a) (tag OR cat_tag ?c) = Inr w"
    "\<forall>c \<in> set categories. (w AND cat_tag c = 0) \<longleftrightarrow> (tag OR cat_tag ?c) AND cat_tag c = 0 \<and> cat_name c \<notin> set args"
    using Cons.IH [of "find_category a" "tag OR cat_tag ?c"] Cons.prems by auto
  have "((tag OR cat_tag ?c) AND cat_tag d = 0) \<longleftrightarrow> tag AND cat_tag d = 0 \<and> cat_name d \<noteq> a"
    if "d \<in> set categories" for d
    using categories_disjoint [OF c(1) that] c(2) by (auto simp: bit.conj_disj_distrib2 or_eq_0_iff)
  with w step show ?case by auto
qed simp

text \<open>
  The variable that is tested after each argument is not set by the names \<open>always\<close> and \<open>never\<close>: whether
  \<open>atrace always\<close> works depends on what the stack held.
\<close>

lemma atrace_always_unset:
  "fst (atrace_main j t [prog, ''always'']) = (if j = length category_list then - EINVAL else 0)"
  by (simp add: atrace_main_def run_category_def)

text \<open>A file that defines no tag traces nothing, whatever is enabled; the tags of the categories are valid.\<close>

lemma atrace_untagged:
  "ATRACE_BEGIN ATRACE_TAG_NEVER t name = t" "ATRACE_END ATRACE_TAG_NEVER t = t"
  "ATRACE_ASYNC_BEGIN ATRACE_TAG_NEVER t name cookie = t" "ATRACE_ASYNC_END ATRACE_TAG_NEVER t name cookie = t"
  "ATRACE_ASYNC_FOR_TRACK_BEGIN ATRACE_TAG_NEVER t track name cookie = t"
  "ATRACE_ASYNC_FOR_TRACK_END ATRACE_TAG_NEVER t track name cookie = t"
  "ATRACE_INSTANT ATRACE_TAG_NEVER t name = t" "ATRACE_INSTANT_FOR_TRACK ATRACE_TAG_NEVER t track name = t"
  "ATRACE_INT ATRACE_TAG_NEVER t name v = t" "ATRACE_INT64 ATRACE_TAG_NEVER t name v64 = t"
  by (simp_all add: atrace_macros atrace_inline atrace_is_tag_enabled_def ATRACE_TAG_NEVER_def)

lemma categories_valid:
  assumes "c \<in> set categories"
  shows "cat_tag c AND ATRACE_TAG_VALID_MASK = cat_tag c"
proof -
  have m: "ATRACE_TAG_VALID_MASK = mask 28"
    by (simp add: ATRACE_TAG_VALID_MASK_def atrace_tags mask_eq_exp_minus_1 push_bit_eq_mult)
  obtain i where i: "i < 27" "cat_tag c = push_bit (Suc i) 1" using categories_nth [OF assms] .
  have "take_bit 28 (2 ^ Suc i :: 64 word) = 2 ^ Suc i"
    using i(1) by (intro bit_eqI) (auto simp: bit_take_bit_iff bit_exp_iff simp del: power_Suc)
  with i(2) show ?thesis by (simp add: m take_bit_eq_mask)
qed

end
