(* ===== verification/Instances.thy ===== *)
theory Instances
  imports Watchers Sysprop Tools Log_Macros Log_Read Event_List Event_Log Trace "HOL-Library.Code_Target_Nat"
begin

text \<open>
  Concrete states for the instances of the theorems: a server that has just entered its loop, on
  files or on the reference engine, and a process that uses it. The equations below let the
  simplifier run the whole of client and server on them.
\<close>

lemma strncmp_eq_code [code]:
  "strncmp_eq a b n = (if n = 0 then True
     else case (a, b) of (x # xs, y # ys) \<Rightarrow> x = y \<and> (x = NUL \<or> strncmp_eq xs ys (n - 1)) | _ \<Rightarrow> False)"
  by (cases n; cases a; cases b) auto

declare connect_loop.simps [code] client_set_again.simps [code]

definition file_config :: config where
  "file_config = default_config\<lparr>CONFIG_KVDB_PERSIST_PATH := ''/data'', CONFIG_KVDB_TEMPORARY_PATH := ''/tmp''\<rparr>"

definition empty_fs :: fs where
  "empty_fs = \<lparr>files = [], dirs = [''/data'', ''/tmp''], io = []\<rparr>"

definition empty_unq :: "(string \<times> string) list unq" where
  "empty_unq = \<lparr>db = [[], []], handle = [True, True], oom = False\<rparr>"

definition loop_start :: "'w \<Rightarrow> 'w server" where
  "loop_start w =
     \<lparr>kvdb = w, lfd = [3], head = [], watch = [(3, PListen 0)], conns = [], sent = [], sys = [],
      brk = 0, srcs = [], clock = 0\<rparr>"

definition process :: "'w \<Rightarrow> 'w proc" where
  "process w = \<lparr>penv = Map.empty, env_nomem = False, world = w\<rparr>"

lemma loop_start_inv: "mon_inv {} (loop_start w)"
  by (auto simp: mon_inv_def loop_start_def listen_watch_def)

lemma loop_start_simps [simp]:
  "kvdb (loop_start w) = w" "sys (loop_start w) = []" "lfd (loop_start w) = [3]"
  "head (loop_start w) = []" "conns (loop_start w) = []" "sent (loop_start w) = []"
  by (simp_all add: loop_start_def)

lemma loop_start_ok: "opened w \<Longrightarrow> served_ok opened (loop_start w, next)"
  using loop_start_inv [of w] by (auto simp: served_ok_def)

lemma process_simps [simp]: "penv (process w) k = None" "world (process w) = w"
  by (simp_all add: process_def)

lemma empty_fs_view [simp]: "file_view cfg empty_fs k = None"
  by (simp add: file_view_def empty_fs_def)

lemma empty_fs_inv: "file_inv cfg empty_fs"
  unfolding file_inv_def by (simp add: empty_fs_def file_view_def)

lemma file_key_demo:
  "file_good_key file_config ''persist.k''" "file_room file_config empty_fs ''persist.k''"
  "file_good_key file_config ''k''" "file_room file_config empty_fs ''k''"
  by code_simp+

lemma empty_fs_ready: "file_ready file_config empty_fs"
proof -
  have "CONFIG_KVDB_PERSIST_PATH file_config \<in> set (dirs empty_fs)"
    "CONFIG_KVDB_TEMPORARY_PATH file_config \<in> set (dirs empty_fs)"
    "\<forall>d \<in> set (dirs empty_fs). parent_dir d \<notin>
       {CONFIG_KVDB_PERSIST_PATH file_config, CONFIG_KVDB_TEMPORARY_PATH file_config}" by code_simp+
  then show ?thesis by (simp add: file_ready_def empty_fs_inv)
qed

lemma file_db_key_demo: "file_db_key file_config ''k''" "file_db_key file_config ''persist.k''"
  by code_simp+

lemma unq_opened_dbs:
  assumes "\<And>k v. map_of m0 k = Some v \<or> map_of m1 k = Some v \<Longrightarrow> length v < PROP_VALUE_MAX"
  shows "unq_opened default_config map_of (empty_unq\<lparr>db := [m0, m1]\<rparr>)"
proof -
  have "length v < PROP_VALUE_MAX"
    if v: "unq_view default_config map_of (empty_unq\<lparr>db := [m0, m1]\<rparr>) k = Some v" for k v
  proof -
    from v have i: "0 \<le> unq_index default_config k" by (simp add: unq_view_def split: if_splits)
    then have "nat (unq_index default_config k) < 2"
      using unq_index_range [of default_config k] by (simp add: KVDB_COUNT_def default_config_def)
    with v have "map_of m0 (k @ [NUL]) = Some v \<or> map_of m1 (k @ [NUL]) = Some v"
      by (auto simp: unq_view_def less_2_cases_iff split: if_splits)
    then show ?thesis by (rule assms)
  qed
  then show ?thesis
    by (simp add: unq_opened_def unq_idle_def empty_unq_def KVDB_COUNT_def default_config_def)
qed

lemma empty_unq_opened: "unq_opened default_config map_of empty_unq"
  using unq_opened_dbs [of "[]" "[]"] by (simp add: empty_unq_def)

lemma unq_key_demo: "unq_good_key ''ro.k''" "unq_good_key ''k''"
  by code_simp+

text \<open>Databases in which the property \<open>k\<close> is \<open>on\<close>.\<close>

definition one_unq :: "(string \<times> string) list unq" where
  "one_unq = empty_unq\<lparr>db := [[], [(''k'' @ [NUL], ''on'')]]\<rparr>"

lemma one_unq_opened: "unq_opened default_config map_of one_unq"
  unfolding one_unq_def by (rule unq_opened_dbs) (auto simp: kvdb_consts split: if_splits)

lemma one_unq_view: "unq_view default_config map_of one_unq ''k'' = Some ''on''"
proof -
  have "unq_index default_config ''k'' = 1" by code_simp
  with unq_key_demo(2) show ?thesis by (simp add: unq_view_def one_unq_def)
qed

definition junk_mem :: cmem where
  "junk_mem = heap_mem (\<lambda>_. CHR ''x'')"

lemma length_heap_mem [simp]: "length (heap_mem f) = PROP_MSG_MAX"
  by (simp add: heap_mem_def)

lemma length_junk_mem [simp]: "length junk_mem = PROP_MSG_MAX"
  by (simp add: junk_mem_def)

text \<open>The processes the instances are about: clients of a server, and a process on the storage itself.\<close>

abbreviation file_client :: "(fs server \<times> int) papi" where
  "file_client \<equiv> client_api (served_net file_config (file_backend file_config) junk_mem 0 (\<lambda>req. [Bytes req])) junk_mem"

abbreviation unq_net :: "((string \<times> string) list unq server \<times> int) net" where
  "unq_net \<equiv> served_net default_config (unq_backend default_config alist_engine) junk_mem 0 (\<lambda>req. [Bytes req])"

abbreviation unq_client :: "((string \<times> string) list unq server \<times> int) papi" where
  "unq_client \<equiv> client_api unq_net junk_mem"

lemma file_client_ok: "served_ok (file_inv file_config) (world (process (loop_start empty_fs, 0)))"
  by (simp add: loop_start_ok [of "file_inv file_config"] empty_fs_inv)

lemma unq_client_ok:
  "served_ok (unq_opened default_config map_of) (world (process (loop_start empty_unq, 0)))"
  by (simp add: loop_start_ok [of "unq_opened default_config map_of"] empty_unq_opened)

text \<open>An empty device, an empty log, a fresh trace.\<close>

definition empty_nvs :: "(string \<times> string) list nvs" where
  "empty_nvs = \<lparr>devs = [[], []], nfd = [], opens = [], closed = [], nvs_oom = False\<rparr>"

lemma empty_nvs_idle: "nvs_idle default_config 64 map_of True empty_nvs"
proof -
  have "nvs_view default_config 64 map_of empty_nvs k = None" for k
    by (auto simp: nvs_view_def empty_nvs_def nvs_index_def)
  then show ?thesis by (simp add: nvs_idle_def empty_nvs_def KVDB_COUNT_def default_config_def)
qed

lemma nvs_key_demo: "nvs_good_key 64 ''persist.k''" "nvs_good_key 64 ''k''"
  by code_simp+

definition empty_log :: logs where
  "empty_log = \<lparr>g_logger = Logd_Logger, g_aborter = Default_Aborter, log_env = Map.empty, log_nomem = False,
     progname = ''app'', stamp = ''01-01 00:00:00'', pid = 1, gettid = 1, written = []\<rparr>"

definition fresh_trace :: trace where
  "fresh_trace = \<lparr>atrace_enabled_tags = - 1, tid = 1, notes_out = [], term_out = []\<rparr>"

text \<open>A server with one monitor, for the keys that start with \<open>k\<close>.\<close>

definition monitored :: "fs server" where
  "monitored = (loop_start empty_fs)\<lparr>head := [\<lparr>mon_addr = 0, mon_fd = 5, mon_key = ''k*''\<rparr>], brk := 1,
     watch := [(5, PMon 0), (3, PListen 0)], conns := [5]\<rparr>"

lemma monitored_inv: "mon_inv {} monitored"
  by (auto simp: mon_inv_def monitored_def loop_start_def listen_watch_def mon_watch_def)

text \<open>A server before \<open>main\<close> has run.\<close>

definition before_main :: "'w \<Rightarrow> 'w server" where
  "before_main w = (loop_start w)\<lparr>watch := [], lfd := []\<rparr>"

lemma before_main_simps [simp]:
  "kvdb (before_main w) = w" "head (before_main w) = []" "watch (before_main w) = []" "conns (before_main w) = []"
  by (simp_all add: before_main_def)

text \<open>An event library whose context is the room that is left: an element that does not fit is refused.\<close>

definition room_put :: "nat \<Rightarrow> nat \<Rightarrow> int \<times> nat" where
  "room_put room n = (if n \<le> room then (0, room - n) else (- EIO, room))"

definition small_lib :: "nat event_lib" where
  "small_lib =
     \<lparr>create_android_logger = \<lambda>_. 8, android_log_destroy = \<lambda>room. (0, 0),
      android_log_write_list_begin = \<lambda>room. room_put room 1, android_log_write_list_end = \<lambda>room. (0, room),
      android_log_write_int32 = \<lambda>room _. room_put room 5, android_log_write_int64 = \<lambda>room _. room_put room 9,
      android_log_write_string8 = \<lambda>room v. room_put room (case v of None \<Rightarrow> 5 | Some v \<Rightarrow> 5 + length v),
      android_log_write_string8_len = \<lambda>room v n. room_put room (5 + n),
      android_log_write_float32 = \<lambda>room _. room_put room 5, android_log_write_list = \<lambda>room _. (0, room)\<rparr>"

end
