(* ===== verification/Spec2Isabelle.thy ===== *)
theory Spec2Isabelle
  imports Instances
begin

text \<open>
  A verification development for the system utilities of openvela (\<open>src/\<close>): the key-value property
  store with its server, clients and backends (\<open>kvdb/\<close>), the Android logging interface (\<open>log/\<close> and the
  headers under \<open>include/log\<close> and \<open>include/android\<close>) and the trace interface (\<open>trace/\<close> and
  \<open>include/cutils/trace.h\<close>).

  \<^bold>\<open>The program.\<close> A process reads and writes properties through the typed accessors of
  \<open>kvdb/common.c\<close>. These rest on four binary accessors, which are linked from \<open>kvdb/direct.c\<close> (the process
  works on the storage itself) or from \<open>kvdb/client.c\<close> (it sends requests to the server). The server,
  \<open>kvdb/server.c\<close>, loads property files, answers the requests, notifies monitors of changed keys and commits
  changes after a delay. Server and direct processes work on one of three backends behind the functions
  \<open>kvdb_init\<close> to \<open>kvdb_commit\<close> of \<open>kvdb/internal.h\<close>: \<open>kvdb/file.c\<close>, \<open>kvdb/unqlite.c\<close> or \<open>kvdb/nvs.c\<close>. On top are
  \<open>kvdb/system_properties.c\<close> and the tools \<open>getprop\<close>, \<open>setprop\<close> and \<open>qemu_properties\<close>.

  \<^bold>\<open>The theories.\<close> In the order in which they build on each other:
  \<^item> \<open>Prelude\<close>: C memory as a list of characters, undefined behaviour as a value of type \<open>fault\<close>, error numbers,
    scripts of system call results, unsigned sizes of 32 bits with their wrap-around; generic lemmas.
  \<^item> \<open>Libc\<close>, \<open>Fnmatch\<close>: what the code uses of the C library, with the round trips of number printing and
    parsing; \<open>fnmatch\<close> as \<open>kvdb_monitor_notify\<close> calls it.
  \<^item> \<open>Keyspace\<close>: limits, configuration, the database of a key; the record \<open>backend\<close> of the seven functions of
    \<open>internal.h\<close> and their contracts as locales: \<open>kv_backend\<close> (a store with a view as a map, opened and closed),
    \<open>kv_service\<close> (nothing breaks for any memory and lengths), \<open>kv_steady\<close> (opening succeeds) and \<open>kv_checked\<close>
    (terminators are checked, existence can be tested).
  \<^item> \<open>File_Backend\<close>: \<open>file.c\<close> on a file system with short and failing calls; interpretations \<open>fb\<close>, \<open>fi\<close>, \<open>fs\<close>.
  \<^item> \<open>Unqlite_Backend\<close>: \<open>unqlite.c\<close>; the engine is a parameter with its documented behaviour \<open>unqlite_ok\<close>;
    a reference engine on association lists and the interpretation \<open>uq\<close>.
  \<^item> \<open>Nvs_Backend\<close>: \<open>nvs.c\<close>; the configuration device is a parameter with its documented behaviour
    \<open>cfgdev_ok\<close>; a reference device and the interpretation \<open>nv\<close>.
  \<^item> \<open>Common\<close>: every function of \<open>common.c\<close> over a record \<open>papi\<close> of binary accessors, and the locale
    \<open>property_store\<close> in which the round trips of all types are proved once.
  \<^item> \<open>Direct\<close>: \<open>direct.c\<close>; every steady backend gives a \<open>property_store\<close>.
  \<^item> \<open>Net\<close>, \<open>Client\<close>: stream sockets as lists of segments and errors; every function of \<open>client.c\<close>. The loops that
    may retry forever are partial functions with value \<open>None\<close> when they do not return.
  \<^item> \<open>Monitor\<close>, \<open>Loader\<close>, \<open>Server\<close>: the state of \<open>server.c\<close> with its poll set, connections and sent messages; the
    monitors as heap objects; \<open>kvdb_load\<close>; the handler of every command, the event loop, \<open>main\<close>.
  \<^item> \<open>Server_Laws\<close>, \<open>Server_Safety\<close>: bounds of the message buffer, the invariant \<open>mon_inv\<close> under every step of
    the loop (the inductive relations \<open>loop_step\<close> and \<open>loop_reach\<close>), when the server faults and when not, the
    delayed commit.
  \<^item> \<open>Served\<close>: client and server together, as the locale \<open>kv_server\<close>: a client of a served backend is again a
    \<open>property_store\<close>; interpretations \<open>sf\<close> and \<open>su\<close>. The client's loops stay inside their buffers whatever arrives.
  \<^item> \<open>Sessions\<close>: sequences of requests of any number of processes against the specification of a shared map: the
    step relation \<open>map_step\<close> with its traces for stores that may fail (locale \<open>session_store\<close>), the map as a
    function for stores that do not (locale \<open>exact_store\<close>, on exact backends \<open>kv_exact\<close>); direct access and client
    are instances of both; interpretations \<open>fx\<close> and \<open>sx\<close> on file storage.
  \<^item> \<open>Watchers\<close>: a monitor opened with \<open>property_monitor_open\<close> and the sessions of other processes: what the server sends on
    the channel (the relation \<open>told\<close> of \<open>Served\<close>) and what \<open>property_monitor_read\<close> makes of it.
  \<^item> \<open>Sysprop\<close>, \<open>Tools\<close>: \<open>system_properties.c\<close>, \<open>getprop.c\<close>, \<open>setprop.c\<close>, \<open>qemu_properties.c\<close>.
  \<^item> \<open>Log\<close>, \<open>Log_Macros\<close>, \<open>Log_Time\<close>, \<open>Log_Read\<close>, \<open>Event_List\<close>, \<open>Event_Log\<close>: \<open>log_write.c\<close> and \<open>set_abort_message.c\<close>; the macros of
    \<open>log_main.h\<close>, \<open>log_system.h\<close>, \<open>log_radio.h\<close> and \<open>log_safetynet.h\<close>; \<open>struct log_time\<close> as a linear order with
    exact arithmetic; the entries of a log reader; the class \<open>android_log_event_list\<close>; the event types and event
    macros of \<open>log.h\<close> and the packed structures of \<open>private/android_logger.h\<close>.
  \<^item> \<open>Trace\<close>: the tags and inline functions of \<open>trace.h\<close>, \<open>trace.c\<close> and \<open>atrace.c\<close>.
  \<^item> \<open>Instances\<close>: the concrete states and processes of the instances (the theorems \<open>..._witness\<close>) below.

  \<^bold>\<open>What is proved here.\<close> The properties span the components: a value a client sets is what every
  client, and every process on the same storage, reads; any interleaving of requests through the server has the
  results of a map, and those of direct access; a monitor is told of every successful change it has asked for and
  of nothing else, in order; deletes and lists arrive as they were sent, for every segmentation that keeps a header
  together; the backends refine maps and stay well typed for
  all memory; the state of the server
  stays well formed, and apart from two situations, which are exhibited, no bytes from the network lead to
  undefined behaviour; changes are committed in time; loads are bounded and keep what they should; the tools,
  the log filter, log times, event lists and trace categories do what they promise. Where the code does not do
  what it means to, the theorem states what it does instead.

  \<^bold>\<open>State and effects.\<close> A system call whose result the code looks at takes it from a script in the state
  (\<open>sys_next\<close>; the empty script means that all calls succeed), or is a field of a record of parameters. Time is a
  number that calls advance. Uninitialised memory is an argument (\<open>junk\<close>, \<open>uninit\<close>, \<open>stack\<close>, \<open>j\<close>), so that the
  theorems hold for every content. Pointers into strings are suffixes of lists.

  \<^bold>\<open>Bounds.\<close> Keys have fewer than 127 and values fewer than 255 bytes, so that both fit the length bytes of
  the protocol. No definition uses fuel: loops are structural, have a measure, or are partial functions, and
  for these both the returning and the not returning cases are theorems.

  \<^bold>\<open>Not modelled.\<close> Threads and preemption inside one call (the server is one thread, clients are interleaved
  between its events). \<open>close\<close> is assumed to leave the error number alone. Signals, \<open>poll\<close> (its result is an
  argument of \<open>property_wait\<close>) and the places where diagnostic messages are written (the macros themselves are in
  \<open>Keyspace\<close>). A build with \<open>CONFIG_NET_RPMSG\<close> only, in which
  the event loop reads past an array of one descriptor. The functions that \<open>log.h\<close>, \<open>log_read.h\<close>,
  \<open>log_event_list.h\<close>, \<open>logprint.h\<close>, \<open>event_tag_map.h\<close> and \<open>android_logger.h\<close> only declare are implemented elsewhere, and
  \<open>log_time::strptime\<close> too; what is left of the headers are these declarations and comments. Build
  files and the build option \<open>CONFIG_KVDB_DUMPLIST\<close> of \<open>getprop\<close> beyond the value of the option.
\<close>

section \<open>A client and the server together\<close>



text \<open>
  C5: Through the server on the UnQLite backend, a buffer of bytes that \<open>property_set_buffer\<close> reports as
  stored is what \<open>property_get_buffer\<close> returns into a buffer that is at least as long.
\<close>

theorem served_unqlite_buffer:
  assumes "unqlite_ok U recs" "unq_paths cfg" "length junk = PROP_MSG_MAX" "good_seg seg"
    and "served_ok (unq_opened cfg recs) (world p)" "unq_good_key k"
    and "n \<le> length bs" "n \<le> sz" "2 * sz < 2 ^ SIZE_BITS"
    and P: "P = client_api (served_net cfg (unq_backend cfg U) junk now seg) junk"
    and "property_set_buffer P p k bs n = (r, p1)" "0 \<le> r"
  shows "fst (property_get_buffer P p1 k sz) = Inr (int n, take n bs)"
  using property_store.set_get_buffer [OF unq_served_store [OF assms(1-4)] assms(5,6) _ assms(7-9)] assms(11,12)
  by (simp add: P)

theorem served_unqlite_buffer_witness:
  "fst (property_set_buffer unq_client (process (loop_start empty_unq, 0)) ''k'' [1, 171] 2) = 0 \<and>
   fst (property_get_buffer unq_client
     (snd (property_set_buffer unq_client (process (loop_start empty_unq, 0)) ''k'' [1, 171] 2)) ''k'' 2) = Inr (2, [1, 171])"
proof
  show r: "fst (property_set_buffer unq_client (process (loop_start empty_unq, 0)) ''k'' [1, 171] 2) = 0"
    by code_simp
  show "fst (property_get_buffer unq_client
     (snd (property_set_buffer unq_client (process (loop_start empty_unq, 0)) ''k'' [1, 171] 2)) ''k'' 2) = Inr (2, [1, 171])"
    using served_unqlite_buffer [OF alist_engine_ok default_config_paths length_junk_mem good_seg_single
        unq_client_ok unq_key_demo(2) _ _ _ refl prod.collapse [symmetric], of 2 "[1, 171]" 2 0] r
    by (simp add: SIZE_BITS_def)
qed

text \<open>
  C1: Any number of processes set, get and delete properties through the server, on file storage whose
  directories exist, in any order and for every way the requests arrive: every result, and the storage in the
  end, are those of one map that all processes share, under the environment variables of each.
\<close>

theorem served_session_refines:
  assumes "served_ok (file_ready cfg) n" "list_all (\<lambda>iq. good_request (file_db_key cfg) (snd iq)) qs"
    and "length junk = PROP_MSG_MAX" "good_seg seg" and N: "N = served_net cfg (file_backend cfg) junk now seg"
    and "session (client_ops N junk) E n qs = (as, E', n')"
  shows "session (map_ops (- 1)) E (file_view cfg (kvdb (fst n))) qs = (as, E', file_view cfg (kvdb (fst n')))"
  using exact_server.served_session [OF file_exact_server [OF assms(3,4)] assms(1,2)] assms(6) by (simp add: N)

theorem served_session_refines_witness:
  "fst (session (client_ops (served_net file_config (file_backend file_config) junk_mem 0 (\<lambda>req. [Bytes req])) junk_mem)
      ((\<lambda>_. Map.empty)(2 := [''k'' \<mapsto> ''own''])) (loop_start empty_fs, 0)
      [(0, SetReq ''k'' ''on''), (1, GetReq ''k''), (2, GetReq ''k''), (1, DeleteReq ''k''), (0, DeleteReq ''k''), (0, GetReq ''k'')]) =
   [Inr (0, []), Inr (2, ''on''), Inr (3, ''own''), Inr (0, []), Inr (- 1, []), Inr (- EINVAL, [])]"
  (is "fst (session ?C ?E ?n ?qs) = ?as")
proof -
  obtain as E' n' where s: "session ?C ?E ?n ?qs = (as, E', n')" by (metis prod.exhaust)
  have q: "list_all (\<lambda>iq. good_request (file_db_key file_config) (snd iq)) ?qs"
    using file_db_key_demo by simp
  have e: "fst (session (map_ops (- 1)) ?E Map.empty ?qs) = ?as"
    by (simp add: map_ops_def map_set_def map_get_def map_delete_def read_answer_def kvdb_consts)
  have "file_view file_config empty_fs = Map.empty" by auto
  with served_session_refines [OF loop_start_ok [of "file_ready file_config", OF empty_fs_ready] q length_junk_mem
      good_seg_single refl s] e s
  show ?thesis by simp
qed

text \<open>
  C2: The same sequence of requests has the same results through the server and by direct access to the
  same file storage, leaves the processes with the same variables and the storage with the same properties.
\<close>

theorem served_direct_session:
  assumes "served_ok (file_ready cfg) n" "list_all (\<lambda>iq. good_request (file_db_key cfg) (snd iq)) qs"
    and "length junk = PROP_MSG_MAX" "good_seg seg" and N: "N = served_net cfg (file_backend cfg) junk now seg"
    and "session (client_ops N junk) E n qs = (as, E', n')"
    and "session (direct_ops (file_backend cfg)) E (kvdb (fst n)) qs = (bs, F', w')"
  shows "as = bs \<and> E' = F' \<and> file_view cfg (kvdb (fst n')) = file_view cfg w'"
proof -
  have "file_ready cfg (kvdb (fst n))" using assms(1) by (simp add: served_ok_def)
  from fx.direct_exact.session_refines [OF this assms(2) assms(7) [unfolded direct_ops_def]]
    exact_server.served_session [OF file_exact_server [OF assms(3,4)] assms(1,2)] assms(6) N
  show ?thesis by simp
qed

theorem served_direct_session_witness:
  "fst (session (client_ops (served_net file_config (file_backend file_config) junk_mem 0 (\<lambda>req. [Bytes req])) junk_mem)
      (\<lambda>_. Map.empty) (loop_start empty_fs, 0) [(0, SetReq ''k'' ''on''), (1, DeleteReq ''k''), (0, GetReq ''k'')]) =
   fst (session (direct_ops (file_backend file_config)) (\<lambda>_. Map.empty) empty_fs
      [(0, SetReq ''k'' ''on''), (1, DeleteReq ''k''), (0, GetReq ''k'')])"
  (is "fst (session ?C ?E ?n ?qs) = fst (session ?D ?E ?w ?qs)")
proof -
  obtain as E' n' where s: "session ?C ?E ?n ?qs = (as, E', n')" by (metis prod.exhaust)
  obtain bs F' w' where d: "session ?D ?E ?w ?qs = (bs, F', w')" by (metis prod.exhaust)
  have q: "list_all (\<lambda>iq. good_request (file_db_key file_config) (snd iq)) ?qs"
    using file_db_key_demo by simp
  have "as = bs \<and> E' = F' \<and> file_view file_config (kvdb (fst n')) = file_view file_config w'"
    by (rule served_direct_session [OF loop_start_ok [of "file_ready file_config", OF empty_fs_ready] q length_junk_mem
      good_seg_single refl s]) (use d in simp)
  then show ?thesis using s d by simp
qed

text \<open>
  C3: On UnQLite, where calls may fail: after any sequence of requests of any processes through the server, a get
  returns what the last call on its key that reported success has left there, the stored string or
  nothing; calls that reported an error have left nothing behind.
\<close>

theorem served_last_write_wins:
  assumes "unqlite_ok U recs" "unq_paths cfg" "length junk = PROP_MSG_MAX" "good_seg seg"
    and N: "N = served_net cfg (unq_backend cfg U) junk now seg"
    and "served_ok (unq_opened cfg recs) n" "list_all (\<lambda>iq. good_request unq_good_key (snd iq)) qs"
    and "unq_good_key k" "\<forall>i. E i k = None"
    and "session (client_ops N junk) E n qs = (as, E', n')" "world p = n'" "penv p = E' j"
  shows "fst (property_get (client_api N junk) p k (Some PROP_VALUE_MAX) None) =
    read_answer (last_write k (unq_view cfg recs (kvdb (fst n)) k) (zip qs as))"
  using kv_server.served_last_write [where E = E and k = k, OF unq_served [OF assms(1-4)] assms(6-8)] assms(9-12)
  by (simp add: N)

theorem served_last_write_wins_witness:
  "\<exists>E' n'. session (client_ops (served_net default_config (unq_backend default_config alist_engine) junk_mem 0 (\<lambda>req. [Bytes req]))
       junk_mem) (\<lambda>_. Map.empty) (loop_start empty_unq, 0)
       [(0, SetReq ''ro.k'' ''1''), (1, SetReq ''ro.k'' ''2''), (1, GetReq ''k'')] =
     ([Inr (0, []), Inr (- EPERM, []), Inr (- EINVAL, [])], E', n') \<and>
   fst (property_get unq_client \<lparr>penv = E' 1, env_nomem = False, world = n'\<rparr> ''ro.k'' (Some PROP_VALUE_MAX) None) = Inr (1, ''1'')"
  (is "\<exists>E' n'. session ?C ?E ?n ?qs = (?as, E', n') \<and> _")
proof -
  have "fst (session ?C ?E ?n ?qs) = ?as" by code_simp
  then obtain E' n' where s: "session ?C ?E ?n ?qs = (?as, E', n')" by (metis prod.collapse)
  have q: "list_all (\<lambda>iq. good_request unq_good_key (snd iq)) ?qs" using unq_key_demo by simp
  have n: "served_ok (unq_opened default_config map_of) ?n"
    using unq_client_ok by simp
  have "unq_view default_config map_of empty_unq ''ro.k'' = None" by code_simp
  with served_last_write_wins [where E = ?E and j = 1 and p = "\<lparr>penv = E' 1, env_nomem = False, world = n'\<rparr>",
      OF alist_engine_ok default_config_paths length_junk_mem good_seg_single refl n q unq_key_demo(1) _ s]
  have "fst (property_get unq_client \<lparr>penv = E' 1, env_nomem = False, world = n'\<rparr> ''ro.k'' (Some PROP_VALUE_MAX) None) = Inr (1, ''1'')"
    by (simp add: errno_defs read_answer_def)
  with s show ?thesis by blast
qed



text \<open>
  C7: A client opens a monitor on a pattern, which succeeds, then any processes set, get and delete properties
  through the server, on UnQLite, where calls may fail. What \<open>property_monitor_read\<close> then returns on the channel, call
  by call, are the changes of the session that reported success and whose key matches the pattern: each once, in
  their order, with the value that was stored (nothing for a delete) cut to the buffer. After these the channel is
  empty.
\<close>

theorem watcher_follows_session:
  assumes "unqlite_ok U recs" "unq_paths cfg" "length junk = PROP_MSG_MAX" "good_seg seg"
    and N: "N = served_net cfg (unq_backend cfg U) junk now seg"
    and "served_ok (unq_opened cfg recs) n" "good_name pat"
    and "list_all (\<lambda>iq. good_request unq_good_key (snd iq)) qs" "\<forall>i. E i = Map.empty"
  shows "\<exists>fd rx n1. property_monitor_open N n (Some pat) = Some ((fd, rx), n1) \<and> 0 \<le> fd \<and>
    (case session (client_ops N junk) E n1 qs of (as, E', n') \<Rightarrow>
       let cs = filter (\<lambda>c. fnmatch pat (fst c)) (changes (zip qs as))
       in monitor_reads (length cs) junk sz (rx @ replies (fresh_fd (fst n)) (fst n1) (fst n')) =
            (map (\<lambda>(k, v). (int (min sz (length v)), k, take sz v)) cs, []))"
proof -
  note srv = unq_served [OF assms(1-4)]
  obtain r n1 where op: "property_monitor_open N n (Some pat) = Some (r, n1)"
    using kv_server.subscribe [OF srv assms(6,7)] unfolding N by blast
  obtain as E' n' where run: "session (client_ops N junk) E n1 qs = (as, E', n')" by (metis prod.exhaust)
  from kv_server.subscription [where E = E and sz = sz, OF srv assms(6,7) op [unfolded N] assms(8) _ run [unfolded N] refl] assms(9)
  show ?thesis using op run by (cases r) (auto simp: split_def)
qed

theorem watcher_follows_session_witness:
  "\<exists>fd rx n1 E' n'. property_monitor_open unq_net (loop_start empty_unq, 0) (Some ''k*'') = Some ((fd, rx), n1) \<and>
     session (client_ops unq_net junk_mem) (\<lambda>_. Map.empty) n1
       [(0, SetReq ''k'' ''on''), (1, SetReq ''ro.k'' ''1''), (1, DeleteReq ''k''), (0, DeleteReq ''k'')] =
       ([Inr (0, []), Inr (0, []), Inr (0, []), Inr (- 6, [])], E', n') \<and>
     monitor_reads 2 junk_mem 92 (rx @ replies 4 (fst n1) (fst n')) =
       ([(3, ''k'', ''on'' @ [NUL]), (0, ''k'', [])], [])"
  (is "\<exists>fd rx n1 E' n'. _ \<and> session ?C ?E n1 ?qs = (?as, E', n') \<and> _")
proof -
  have q: "list_all (\<lambda>iq. good_request unq_good_key (snd iq)) ?qs" using unq_key_demo by simp
  have n: "served_ok (unq_opened default_config map_of) (loop_start empty_unq, 0)"
    using unq_client_ok by simp
  have f: "fnmatch ''k*'' ''k''" "\<not> fnmatch ''k*'' ''ro.k''" by code_simp+
  have "good_name ''k*''" by (simp add: good_name_def kvdb_consts)
  from watcher_follows_session [where E = ?E and sz = 92 and now = 0, OF alist_engine_ok default_config_paths length_junk_mem good_seg_single refl n this q, simplified fst_conv, OF allI, OF refl]
  obtain fd rx n1 where op: "property_monitor_open unq_net (loop_start empty_unq, 0) (Some ''k*'') = Some ((fd, rx), n1)"
    and r: "case session ?C ?E n1 ?qs of (as, E', n') \<Rightarrow>
       let cs = filter (\<lambda>c. fnmatch ''k*'' (fst c)) (changes (zip ?qs as))
       in monitor_reads (length cs) junk_mem 92 (rx @ replies (fresh_fd (loop_start empty_unq)) (fst n1) (fst n')) =
            (map (\<lambda>(k, v). (int (min 92 (length v)), k, take 92 v)) cs, [])" by (elim exE conjE) (rule that)
  have "fst (session ?C ?E (snd (the (property_monitor_open unq_net (loop_start empty_unq, 0) (Some ''k*'')))) ?qs) = ?as"
    by code_simp
  then obtain E' n' where s: "session ?C ?E n1 ?qs = (?as, E', n')" unfolding op by (metis option.sel snd_conv prod.collapse)
  have "fresh_fd (loop_start empty_unq) = 4" by code_simp
  with r s f have "monitor_reads 2 junk_mem 92 (rx @ replies 4 (fst n1) (fst n')) =
      ([(3, ''k'', ''on'' @ [NUL]), (0, ''k'', [])], [])"
    by (simp add: errno_defs numeral_2_eq_2)
  with op s show ?thesis by blast
qed

text \<open>
  C8: Listing through the server: when the backend's list succeeds and its pairs fit the messages, the
  client calls back for exactly those pairs in their order, returns 0, and every stored property is among
  them.
\<close>

theorem served_list:
  assumes ok: "served_ok (file_inv cfg) (s, next)" and cfg: "CONFIG_KVDB_DUMPLIST cfg"
    and junk: "length junk = PROP_MSG_MAX" "length msg = PROP_MSG_MAX"
    and list: "kvdb_list (file_backend cfg) (kvdb s) True = ((r, calls), w)" "0 \<le> r" "\<forall>c \<in> set calls. list_pair c"
  shows "\<exists>n'. client_list_binary (served_net cfg (file_backend cfg) junk now (\<lambda>req. [Bytes req])) msg (s, next) =
      Some ((0, calls), n') \<and> (\<forall>k v. file_view cfg (kvdb s) k = Some v \<longrightarrow> (k, v) \<in> set calls)"
proof -
  let ?B = "file_backend cfg" and ?fd = "fresh_fd s" and ?bs = "map list_entry calls @ [[NUL, NUL]]"
  let ?s = "s\<lparr>conns := ?fd # conns s\<rparr>"
  obtain s' where run: "kvdb_client cfg ?B ?s ?fd junk [Bytes ''L''] = Inr (False, s')"
    and sent: "sent s' = sent s @ map (Pair ?fd) ?bs"
    using server_list [of ?s junk cfg ?B r calls w ?fd] ok cfg junk list(1)
    by (simp add: served_ok_def server_close_def o_def)
  obtain next' where send: "served_send cfg ?B junk now (\<lambda>req. [Bytes req]) (s, next) ''L'' = ((1, replies ?fd s s'), s', next')"
    using served_send_eq [of s ?fd cfg ?B junk "\<lambda>req. [Bytes req]" "''L''" False s' now "next"] ok run
    by (auto simp: served_ok_def)
  have "replies ?fd s s' = map Bytes ?bs"
    using replies_single [of "[]" ?fd s' s ?bs] sent by simp
  moreover have "[] \<notin> set ?bs" by (auto simp: list_entry_def)
  then have "carries (map Bytes ?bs) (concat (map list_entry calls) @ [NUL, NUL] @ [])"
    using carries_concat [of ?bs] by simp
  ultimately have "client_list_loop 0 (replies ?fd s s') msg = (0, calls)"
    using client_list_entries [OF list(3) _ junk(2)] by simp
  moreover have "client_list_binary (served_net cfg ?B junk now (\<lambda>req. [Bytes req])) msg (s, next) =
      Some (client_list_loop 0 (replies ?fd s s') msg, s', next')"
    unfolding client_list_binary_def connect_served by (simp add: served_net_def send)
  moreover have "\<forall>k v. file_view cfg (kvdb s) k = Some v \<longrightarrow> (k, v) \<in> set calls"
    using fs.list_opened [OF _ list(1)] list(2) ok by (simp add: served_ok_def)
  ultimately show ?thesis by auto
qed

theorem served_list_witness:
  "\<exists>n'. client_list_binary (served_net file_config (file_backend file_config) junk_mem 0 (\<lambda>req. [Bytes req])) junk_mem
      (loop_start (empty_fs\<lparr>files := [(''/tmp/k'', ''on'')]\<rparr>), 0) = Some ((0, [(''k'', ''on'')]), n')"
proof -
  let ?w = "empty_fs\<lparr>files := [(''/tmp/k'', ''on'')]\<rparr>"
  have inv: "file_inv file_config ?w"
    by (rule file_inv_files [OF empty_fs_inv, where x = "Some ''on''"]) (auto simp: empty_fs_def kvdb_consts)
  have l: "kvdb_list (file_backend file_config) ?w True = ((0, [(''k'', ''on'')]), ?w)" by code_simp
  have p: "list_pair (''k'', ''on'')" "CONFIG_KVDB_DUMPLIST file_config" by code_simp+
  from served_list [OF loop_start_ok [of "file_inv file_config", OF inv] p(2) length_junk_mem length_junk_mem, of 0 "[(''k'', ''on'')]" ?w 0 0] l p
  show ?thesis by auto
qed

text \<open>
  C16: Listing the properties as strings over a connection never runs into undefined behaviour, whatever the
  other end sends: every value is terminated inside the message buffer, and the callback gets only keys and
  values that are C strings within the limits.
\<close>

theorem client_list_safe:
  assumes "client_list_binary N junk (world p) = Some ((r, calls), n')" "length junk = PROP_MSG_MAX"
  shows "\<exists>cs. property_list (\<lambda>k v. client_list_room) (client_api N junk) p = (Inr (r, cs), p\<lparr>world := n'\<rparr>) \<and>
    list_all (\<lambda>(k, v). good_name k \<and> cstring v \<and> length v < PROP_VALUE_MAX) cs"
proof -
  let ?f = "\<lambda>(k, v). (k :: string, cstr (v @ [NUL]))"
  have "length (cstr v) \<le> length v" for v :: string by (simp add: cstr_def length_takeWhile_le)
  then have "list_all (\<lambda>(k, v). good_name k \<and> cstring v \<and> length v < PROP_VALUE_MAX) (map ?f calls)"
    using client_list_binary_within [OF assms] by (fastforce simp: list_all_iff list_pair_def intro: le_less_trans)
  with client_property_list_safe [OF assms] show ?thesis by blast
qed

theorem client_list_safe_witness:
  "\<exists>r cs n. property_list (\<lambda>k v. client_list_room)
     (client_api (served_net file_config (file_backend file_config) junk_mem 0 (\<lambda>req. [Bytes req])) junk_mem)
     (process (loop_start empty_fs, 0)) = (Inr (r, cs), n) \<and>
   list_all (\<lambda>(k, v). good_name k \<and> cstring v \<and> length v < PROP_VALUE_MAX) cs"
proof -
  let ?N = "served_net file_config (file_backend file_config) junk_mem 0 (\<lambda>req. [Bytes req])"
  have "client_list_binary ?N junk_mem (loop_start empty_fs, 0) \<noteq> None"
    by (simp add: client_list_binary_def split: prod.split)
  then obtain r calls n' where "client_list_binary ?N junk_mem (world (process (loop_start empty_fs, 0))) = Some ((r, calls), n')"
    by auto
  from client_list_safe [OF this length_junk_mem] show ?thesis by blast
qed

section \<open>Typed properties\<close>

text \<open>
  C17: A 64-bit integer that \<open>property_set_int64\<close> reports as stored on the file backend is what
  \<open>property_get_int64\<close> returns, whatever the default, for every value of the type.
\<close>

theorem direct_file_int64:
  assumes "file_inv cfg (world p)" "file_good_key cfg k"
    and "property_set_int64 (direct_api (file_backend cfg)) p k i = (r, p1)" "0 \<le> r"
  shows "fst (property_get_int64 (direct_api (file_backend cfg)) p1 k d) = Inr i"
  by (rule property_store.set_get_int64 [OF file_direct_store assms(1,2) TrueI assms(3,4)])

theorem direct_file_int64_witness:
  "fst (property_set_int64 (direct_api (file_backend file_config)) (process empty_fs) ''k'' (- 5)) = 0 \<and>
   fst (property_get_int64 (direct_api (file_backend file_config))
     (snd (property_set_int64 (direct_api (file_backend file_config)) (process empty_fs) ''k'' (- 5))) ''k'' 0) = Inr (- 5)"
proof
  show r: "fst (property_set_int64 (direct_api (file_backend file_config)) (process empty_fs) ''k'' (- 5)) = 0"
    by code_simp
  show "fst (property_get_int64 (direct_api (file_backend file_config))
     (snd (property_set_int64 (direct_api (file_backend file_config)) (process empty_fs) ''k'' (- 5))) ''k'' 0) = Inr (- 5)"
    by (rule direct_file_int64 [OF _ file_key_demo(3) prod.collapse [symmetric]]) (simp_all add: empty_fs_inv r)
qed

text \<open>
  C18: A 32-bit integer that is stored through the server on UnQLite is read back through the server, on
  platforms whose \<open>long\<close> has at least 32 bits.
\<close>

theorem served_unqlite_int32:
  assumes "unqlite_ok U recs" "unq_paths cfg" "length junk = PROP_MSG_MAX" "good_seg seg"
    and "served_ok (unq_opened cfg recs) (world p)" "unq_good_key k" "32 \<le> long_bit"
    and P: "P = client_api (served_net cfg (unq_backend cfg U) junk now seg) junk"
    and "property_set_int32 P p k i = (r, p1)" "0 \<le> r"
  shows "fst (property_get_int32 long_bit P p1 k d) = Inr i"
  using property_store.set_get_int32 [OF unq_served_store [OF assms(1-4)] assms(5,6) _ assms(7)] assms(9,10)
  by (simp add: P)

theorem served_unqlite_int32_witness:
  "fst (property_set_int32 unq_client (process (loop_start empty_unq, 0)) ''k'' (- 7)) = 0 \<and>
   fst (property_get_int32 32 unq_client
     (snd (property_set_int32 unq_client (process (loop_start empty_unq, 0)) ''k'' (- 7))) ''k'' 0) = Inr (- 7)"
proof
  show r: "fst (property_set_int32 unq_client (process (loop_start empty_unq, 0)) ''k'' (- 7)) = 0"
    by code_simp
  show "fst (property_get_int32 32 unq_client
     (snd (property_set_int32 unq_client (process (loop_start empty_unq, 0)) ''k'' (- 7))) ''k'' 0) = Inr (- 7)"
    by (rule served_unqlite_int32 [OF alist_engine_ok default_config_paths length_junk_mem good_seg_single
          unq_client_ok unq_key_demo(2) _ refl prod.collapse [symmetric]]) (simp_all add: r)
qed

text \<open>
  C19: A boolean that is stored on non-volatile storage is read back as 0 or 1.
\<close>

theorem direct_nvs_bool:
  assumes "cfgdev_ok D recs" "nvs_idle cfg name_max recs True (world p)" "nvs_good_key name_max k"
    and "property_set_bool (direct_api (nvs_backend cfg D name_max)) p k b = (r, p1)" "0 \<le> r"
  shows "fst (property_get_bool (direct_api (nvs_backend cfg D name_max)) p1 k d) = Inr (if b = 0 then 0 else 1)"
  by (rule property_store.set_get_bool [OF nvs_direct_store [OF assms(1)] assms(2,3) TrueI assms(4,5)])

theorem direct_nvs_bool_witness:
  "fst (property_set_bool (direct_api (nvs_backend default_config alist_device 64)) (process empty_nvs) ''persist.k'' 2) = 0 \<and>
   fst (property_get_bool (direct_api (nvs_backend default_config alist_device 64))
     (snd (property_set_bool (direct_api (nvs_backend default_config alist_device 64)) (process empty_nvs) ''persist.k'' 2))
     ''persist.k'' 0) = Inr 1"
proof
  show r: "fst (property_set_bool (direct_api (nvs_backend default_config alist_device 64)) (process empty_nvs) ''persist.k'' 2) = 0"
    by code_simp
  show "fst (property_get_bool (direct_api (nvs_backend default_config alist_device 64))
     (snd (property_set_bool (direct_api (nvs_backend default_config alist_device 64)) (process empty_nvs) ''persist.k'' 2))
     ''persist.k'' 0) = Inr 1"
    using direct_nvs_bool [OF alist_device_ok _ nvs_key_demo(1) prod.collapse [symmetric], of default_config "process empty_nvs" 2 0]
      empty_nvs_idle r by simp
qed

section \<open>Backends\<close>

text \<open>
  C9: The file backend refines a map: on quiet storage a set changes the view at its key exactly when it
  does not fail, a delete removes exactly its key, and a get returns the value of the map cut to the
  buffer and leaves the storage alone.
\<close>

theorem file_refines_map:
  assumes "file_inv cfg s" "file_good_key cfg k" "n < PROP_VALUE_MAX"
    and "file_kvdb_set cfg s (Some (k @ NUL # m)) kl (Some v) n f = (r1, s1)"
    and "file_kvdb_delete cfg s (Some (k @ NUL # m)) kl = (r2, s2)"
    and "file_kvdb_get cfg s (Some (k @ NUL # m)) kl True n = ((r3, d), s3)"
  shows "file_view cfg s1 = (if r1 < 0 then file_view cfg s else (file_view cfg s)(k \<mapsto> take n v)) \<and>
    file_view cfg s2 = (if r2 < 0 then file_view cfg s else (file_view cfg s)(k := None)) \<and>
    s3 = s \<and> (case file_view cfg s k of None \<Rightarrow> r3 < 0 | Some x \<Rightarrow> r3 = int (length (take n x)) \<and> d = take n x)"
  using file_set_law [OF assms(1-4)] file_delete_law [OF assms(1,2,5)] file_get_law [OF assms(1,2,6)] by blast

theorem file_refines_map_witness:
  "file_view file_config (snd (file_kvdb_set file_config empty_fs (Some (mem_of ''k'')) 2 (Some ''on'') 2 False)) =
    (file_view file_config empty_fs)(''k'' \<mapsto> ''on'')"
proof -
  have r: "fst (file_kvdb_set file_config empty_fs (Some (mem_of ''k'')) 2 (Some ''on'') 2 False) = 0" by code_simp
  have k: "mem_of ''k'' = ''k'' @ NUL # []" by (simp add: mem_of_def)
  obtain r3 d s3 where g: "file_kvdb_get file_config empty_fs (Some (''k'' @ NUL # [])) 2 True 2 = ((r3, d), s3)"
    by (metis prod.exhaust)
  show ?thesis
    using file_refines_map [OF empty_fs_inv file_key_demo(3) _ prod.collapse [symmetric] prod.collapse [symmetric] g,
        of "''on''" False] r by (simp add: k kvdb_consts)
qed



text \<open>
  C20: On UnQLite neither a set without force nor a delete, whatever memory and lengths it is called with,
  changes the record of a read-only key that exists.
\<close>

theorem unqlite_readonly:
  assumes "unqlite_ok U recs" "i < length (db w)" "cstring k" "prefix ''ro.'' k" "recs (db w ! i) (k @ [NUL]) = Some x"
  shows "recs (db (snd (unq_kvdb_set cfg U w (Some key) kl val n False)) ! i) (k @ [NUL]) = Some x \<and>
    recs (db (snd (unq_kvdb_delete cfg U w (Some key) kl)) ! i) (k @ [NUL]) = Some x"
  using unq_readonly_set [OF assms prod.collapse [symmetric]] unq_readonly_delete [OF assms prod.collapse [symmetric]]
  by blast

theorem unqlite_readonly_witness:
  "map_of (db (snd (unq_kvdb_set default_config alist_engine (empty_unq\<lparr>db := [[], [(''ro.k'' @ [NUL], ''1'')]]\<rparr>)
     (Some (mem_of ''ro.k'')) 5 (Some ''2'') 1 False)) ! 1) (''ro.k'' @ [NUL]) = Some ''1''"
  using unqlite_readonly [OF alist_engine_ok, of 1 "empty_unq\<lparr>db := [[], [(''ro.k'' @ [NUL], ''1'')]]\<rparr>" "''ro.k''" "''1''"
      default_config "mem_of ''ro.k''" 5 "Some ''2''" 1] by simp

text \<open>
  C40: A short write makes the file backend store wrong content and report success: the next round writes
  the value from its start again, behind what was written.
\<close>

theorem file_short_write:
  assumes "0 < m" "m < n" "n \<le> length v"
  shows "file_write_loop [Short m] [] v n 0 = (0, take m v @ take n v, [])"
proof -
  have "file_write_loop [Short m] [] v n 0 = file_write_loop [] (take m v) v n m"
    using assms by (subst file_write_loop.simps) (simp add: sys_next_def min_def)
  also have "\<dots> = file_write_loop [] (take m v @ take n v) v n (m + n)"
    using assms by (subst file_write_loop.simps) simp
  also have "\<dots> = (0, take m v @ take n v, [])" by (subst file_write_loop.simps) simp
  finally show ?thesis .
qed

theorem file_short_write_witness: "file_write_loop [Short 1] [] ''on'' 2 0 = (0, ''oon'', [])"
  using file_short_write [of 1 2 "''on''"] by simp

text \<open>
  C21: Listing non-volatile storage reports every stored property under the key it was stored with: the
  prefix that is put back is the one that was skipped.
\<close>

theorem nvs_lists_keys:
  assumes "cfgdev_ok D recs" "nvs_idle cfg name_max recs st w" "nvs_good_key name_max k"
    and "n < PROP_VALUE_MAX" "persistent k \<or> CONFIG_KVDB_TEMPORARY_STORAGE cfg"
    and "nvs_kvdb_set cfg D name_max w (Some (k @ NUL # m)) (Suc l) (Some v) n f = (r, w')" "0 \<le> r"
  shows "(k, take n v) \<in> set (snd (fst (nvs_kvdb_list cfg D name_max w' True)))"
proof (rule nvs_list_law [OF assms(1)])
  show "nvs_view cfg name_max recs w' k = Some (take n v)"
    using nvs_set_law [OF assms(1-4,6)] assms(7) by simp
  show "length (take n v) < PROP_VALUE_MAX" using assms(4) by simp
qed

theorem nvs_lists_keys_witness:
  "(''persist.k'', ''on'') \<in> set (snd (fst (nvs_kvdb_list default_config alist_device 64
     (snd (nvs_kvdb_set default_config alist_device 64 empty_nvs (Some (''persist.k'' @ NUL # [])) 10 (Some ''on'') 2 False)) True)))"
proof -
  have r: "fst (nvs_kvdb_set default_config alist_device 64 empty_nvs (Some (''persist.k'' @ NUL # [])) 10 (Some ''on'') 2 False) = 0"
    by code_simp
  have p: "persistent ''persist.k''" by code_simp
  from nvs_lists_keys [OF alist_device_ok empty_nvs_idle nvs_key_demo(1) _ _ prod.collapse [symmetric], of 2 "[]" 9 "''on''" False] r p
  show ?thesis by (simp add: kvdb_consts)
qed

text \<open>
  C39: The backend on non-volatile storage accepts a value of \<open>PROP_VALUE_MAX\<close> bytes, which the other backends
  refuse; reading such a property into a buffer of full size writes the terminator out of bounds.
\<close>

theorem nvs_long_value_faults:
  assumes "cfgdev_ok D recs" "nvs_idle cfg name_max recs True w" "nvs_good_key name_max k" "length v = PROP_VALUE_MAX"
    and "persistent k \<or> CONFIG_KVDB_TEMPORARY_STORAGE cfg"
    and "nvs_kvdb_set cfg D name_max w (Some (k @ NUL # m)) (Suc l) (Some v) PROP_VALUE_MAX f = (r, w')" "0 \<le> r"
    and "penv p k = None" "world p = w'"
  shows "fst (property_get (direct_api (nvs_backend cfg D name_max)) p k (Some PROP_VALUE_MAX) d) = Inl OutOfBounds"
proof -
  let ?B = "nvs_backend cfg D name_max"
  have view: "nvs_view cfg name_max recs w' k = Some v" and st: "\<not> nvs_oom w' \<and> (\<forall>q \<in> set (opens w'). 0 \<le> q)"
    using nvs_set_long [OF assms(1-3,5-7)] assms(2,4) by (auto simp: nvs_idle_def)
  obtain r1 w1 where i: "nvs_kvdb_init cfg w' = (r1, w1)" by (cases "nvs_kvdb_init cfg w'")
  note init = nvs_init_state [OF i]
  have view1: "nvs_view cfg name_max recs w1 k = Some v" using view init nvs_view_cong [of recs w1 w' cfg name_max] by simp
  obtain r2 b w2 where g: "nvs_kvdb_get cfg D name_max w1 (Some (k @ NUL # [])) (Suc (length k)) True PROP_VALUE_MAX = ((r2, b), w2)"
    by (metis prod.exhaust)
  have "r2 = int PROP_VALUE_MAX" using nvs_get_law [OF assms(1,3) g] view1 assms(4) by simp
  moreover have "direct_get_binary ?B w' (Some k) True PROP_VALUE_MAX = ((r2, b), kvdb_uninit ?B w2)"
    using kv_backend.direct_get_good [OF nvs_kv_backend [OF assms(1)] assms(3), of cfg w' True PROP_VALUE_MAX] i init st g
    by (auto simp: nvs_backend_def)
  ultimately show ?thesis using assms(8,9) by (simp add: property_get_def direct_api_def kvdb_consts)
qed

theorem nvs_long_value_faults_witness:
  "fst (property_get (direct_api (nvs_backend default_config alist_device 64))
     (process (snd (nvs_kvdb_set default_config alist_device 64 empty_nvs (Some (''k'' @ NUL # [])) 2
       (Some (replicate PROP_VALUE_MAX (CHR ''x''))) PROP_VALUE_MAX False))) ''k'' (Some PROP_VALUE_MAX) None) = Inl OutOfBounds"
proof -
  have r: "fst (nvs_kvdb_set default_config alist_device 64 empty_nvs (Some (''k'' @ NUL # [])) 2
       (Some (replicate PROP_VALUE_MAX (CHR ''x''))) PROP_VALUE_MAX False) = 0"
    by code_simp
  have t: "CONFIG_KVDB_TEMPORARY_STORAGE default_config" by (simp add: default_config_def)
  from nvs_long_value_faults [OF alist_device_ok empty_nvs_idle nvs_key_demo(2) _ _ prod.collapse [symmetric], of
      "replicate PROP_VALUE_MAX (CHR ''x'')" "[]" 1 False
      "process (snd (nvs_kvdb_set default_config alist_device 64 empty_nvs (Some (''k'' @ NUL # [])) 2
         (Some (replicate PROP_VALUE_MAX (CHR ''x''))) PROP_VALUE_MAX False))" None] r t
  show ?thesis by (simp add: numeral_2_eq_2)
qed

section \<open>The server\<close>





text \<open>
  C36: A monitor request with a key length of zero, whose length byte passes for the terminator, makes the
  server copy the string at the end of the message into an object that has no room for it.
\<close>

theorem zero_monitor_faults:
  assumes "sys s = []" "fd \<notin> fst ` set (watch s)" "length junk = PROP_MSG_MAX"
  shows "kvdb_client cfg B s fd junk [Bytes [CHR ''M'', NUL]] = Inl OutOfBounds"
proof -
  have "first_buffer junk [CHR ''M'', NUL] ! 1 = NUL" "first_buffer junk [CHR ''M'', NUL] ! 0 = CHR ''M''"
    by (simp_all add: first_buffer_def mem_write_0)
  then have "client_monitor s fd (first_buffer junk [CHR ''M'', NUL]) 2 [] = Inl OutOfBounds"
    using assms by (simp add: client_monitor_def kvdb_recv.simps kvdb_monitor_open_def kvdb_consts Let_def)
  then show ?thesis
    using kvdb_client_cases [of s Full s "[Bytes [CHR ''M'', NUL]]" "Inr [CHR ''M'', NUL]" "[]" cfg B fd junk] assms(1)
    by (simp add: client_command_def first_buffer_def mem_write_0 kvdb_consts numeral_2_eq_2)
qed

theorem zero_monitor_faults_witness:
  "kvdb_client file_config (file_backend file_config) (loop_start empty_fs) 4 junk_mem [Bytes [CHR ''M'', NUL]] = Inl OutOfBounds"
  by (rule zero_monitor_faults) (simp_all add: loop_start_def)




text \<open>
  C13: An event that changes the UnQLite storage, other than by a reload, sets a deadline at most the
  configured interval away, and the head of any iteration at or after the deadline commits.
\<close>

theorem change_is_committed:
  assumes "unqlite_ok U recs" "unq_paths cfg" "unq_opened cfg recs (kvdb s)" "mon_inv L s" "valid_event s ev"
    and "loop_event cfg (unq_backend cfg U) (s, 0) ev = Inr (s', deadline)"
    and "unq_view cfg recs (kvdb s') \<noteq> unq_view cfg recs (kvdb s)"
    and "\<And>d. fst (recv PROP_MSG_MAX (ev_rx ev)) \<noteq> Inr (CHR ''R'' # d)"
  shows "deadline \<noteq> 0 \<and> deadline \<le> max 1 (ev_now ev + CONFIG_KVDB_COMMIT_INTERVAL cfg) \<and>
    (\<forall>now. deadline \<le> now \<and> now - deadline \<le> 2 ^ 31 \<longrightarrow>
       loop_timer (unq_backend cfg U) s' deadline now =
         (- 1, s'\<lparr>kvdb := snd (kvdb_commit (unq_backend cfg U) (kvdb s'))\<rparr>, 0))"
  using kv_service.loop_event_pending [OF unq_kv_service [OF assms(1,2)] assms(3-8)] loop_timer_due
  by auto

theorem change_is_committed_witness:
  "\<exists>s' deadline. loop_event default_config (unq_backend default_config alist_engine) (loop_start empty_unq, 0)
      (served_event 4 junk_mem 10 [Bytes (set_request ''k'' ''on'' 2)]) = Inr (s', deadline) \<and>
    deadline \<noteq> 0 \<and>
    loop_timer (unq_backend default_config alist_engine) s' deadline deadline =
      (- 1, s'\<lparr>kvdb := snd (kvdb_commit (unq_backend default_config alist_engine) (kvdb s'))\<rparr>, 0)"
proof -
  let ?B = "unq_backend default_config alist_engine" and ?ev = "served_event 4 junk_mem 10 [Bytes (set_request ''k'' ''on'' 2)]"
  have c: "case loop_event default_config ?B (loop_start empty_unq, 0) ?ev of
      Inl _ \<Rightarrow> False | Inr (s', _) \<Rightarrow> db (kvdb s') = [[], [(''k'' @ [NUL], ''on'')]]"
    by code_simp
  then obtain s' dl where e: "loop_event default_config ?B (loop_start empty_unq, 0) ?ev = Inr (s', dl)"
    and d: "db (kvdb s') = [[], [(''k'' @ [NUL], ''on'')]]"
    by (auto split: sum.splits)
  have i: "unq_index default_config ''k'' = 1" by code_simp
  have v: "unq_view default_config map_of (kvdb s') \<noteq> unq_view default_config map_of (kvdb (loop_start empty_unq))"
    using unq_key_demo(2) by (auto simp: unq_view_def i d empty_unq_def dest!: fun_cong [where x = "''k''"])
  have ev: "valid_event (loop_start empty_unq) ?ev" by (auto simp: valid_event_def served_event_def)
  have r: "fst (recv PROP_MSG_MAX (ev_rx ?ev)) \<noteq> Inr (CHR ''R'' # d)" for d
    by (simp add: served_event_def set_request_def kvdb_consts)
  have o: "unq_opened default_config map_of (kvdb (loop_start empty_unq))" by (simp add: empty_unq_opened)
  show ?thesis
    using e change_is_committed [OF alist_engine_ok default_config_paths o loop_start_inv ev e v r] by auto
qed

text \<open>
  C14: Receiving the rest of a message never writes outside the buffer, keeps what was received before, and
  returns the requested length or an error.
\<close>

theorem recv_in_bounds:
  assumes "kvdb_recv rx buf offset len = (r, buf', rx')" "len \<le> length buf"
  shows "length buf' = length buf \<and> take offset buf' = take offset buf \<and> (r = int len \<or> r < 0)"
  by (rule kvdb_recv_bounds [OF assms])

theorem recv_in_bounds_witness:
  "\<exists>r buf rx. kvdb_recv [Bytes ''ab'', Bytes ''cdef''] ''xyz1'' 1 4 = (r, buf, rx) \<and> length buf = 4 \<and> take 1 buf = ''x''"
proof -
  obtain r buf rx where e: "kvdb_recv [Bytes ''ab'', Bytes ''cdef''] ''xyz1'' 1 4 = (r, buf, rx)"
    using prod_cases3 by blast
  show ?thesis using e recv_in_bounds [OF e] by simp
qed

section \<open>Loading files\<close>

text \<open>
  C22: When the file of the load appears within twenty milliseconds and consists of lines \<open>key=value\<close>, the load
  waits for it, applies every entry in order as the key and the value with their terminators, and commits.
\<close>

theorem load_applies_entries:
  assumes "sys s = []" "map_of (srcs s) path = Some (t, concat (map print_entry es))" "t \<le> clock s + 20"
    and "path \<noteq> []" "CHR '';'' \<notin> set path" "\<forall>e \<in> set es. plain_entry e"
  shows "kvdb_load B s path force =
    (0, s\<lparr>clock := max (clock s) t, kvdb := snd (kvdb_commit B (fold (load_one B force) es (kvdb s)))\<rparr>)"
  by (rule kvdb_load_printed [OF assms])

theorem load_applies_entries_witness:
  "kvdb_load (file_backend file_config) ((loop_start empty_fs)\<lparr>srcs := [(''/etc/build.prop'', 3, ''k=on'' @ [CHR 0x0A])]\<rparr>)
     ''/etc/build.prop'' False =
   (0, (loop_start empty_fs)\<lparr>srcs := [(''/etc/build.prop'', 3, ''k=on'' @ [CHR 0x0A])], clock := 3,
      kvdb := snd (kvdb_commit (file_backend file_config) (load_one (file_backend file_config) False (''k'', ''on'') empty_fs))\<rparr>)"
proof -
  let ?s = "(loop_start empty_fs)\<lparr>srcs := [(''/etc/build.prop'', 3, ''k=on'' @ [CHR 0x0A])]\<rparr>"
  have "plain_entry (''k'', ''on'')" by code_simp
  then show ?thesis
    using load_applies_entries [of ?s "''/etc/build.prop''" 3 "[(''k'', ''on'')]" "file_backend file_config" False]
    by (simp add: loop_start_def print_entry_def)
qed

text \<open>
  C23: On UnQLite a load without force, whatever the files hold and whatever the calls return, leaves a
  property alone that the storage has.
\<close>

theorem load_keeps_properties:
  assumes "unqlite_ok U recs" "unq_paths cfg" "unq_opened cfg recs (kvdb s)"
    and "unq_view cfg recs (kvdb s) k = Some v" "unq_good_key k" "v \<noteq> []"
    and "kvdb_load (unq_backend cfg U) s src False = (r, s')"
  shows "unq_view cfg recs (kvdb s') k = Some v"
  by (rule kv_checked.kvdb_load_keeps [OF unq_kv_checked [OF assms(1,2)] assms(3-7)])

theorem load_keeps_properties_witness:
  "unq_view default_config map_of
     (kvdb (snd (kvdb_load (unq_backend default_config alist_engine)
        ((loop_start one_unq)\<lparr>srcs := [(''/p'', 0, ''k=off'' @ [CHR 0x0A])]\<rparr>) ''/p'' False))) ''k'' = Some ''on''"
proof -
  let ?s = "(loop_start one_unq)\<lparr>srcs := [(''/p'', 0, ''k=off'' @ [CHR 0x0A])]\<rparr>"
  have o: "unq_opened default_config map_of (kvdb ?s)" by (simp add: one_unq_opened)
  have v: "unq_view default_config map_of (kvdb ?s) ''k'' = Some ''on''" by (simp add: one_unq_view)
  obtain r s' where e: "kvdb_load (unq_backend default_config alist_engine) ?s ''/p'' False = (r, s')"
    by (metis prod.exhaust)
  have "unq_view default_config map_of (kvdb s') ''k'' = Some ''on''"
    by (rule load_keeps_properties [OF alist_engine_ok default_config_paths o v unq_key_demo(2) _ e]) simp
  then show ?thesis by (simp only: e snd_conv)
qed

text \<open>
  C35: On the file backend a load without force is a load with force: the existence test of the loader is
  refused by the backend, so that the lines of the files replace what was stored.
\<close>

theorem file_load_overwrites:
  "kvdb_load (file_backend cfg) s src False = kvdb_load (file_backend cfg) s src True"
  by (rule load_force_irrelevant) (auto simp: load_one_def file_backend_def file_kvdb_get_def errno_defs split: prod.splits)

text \<open>
  C24: A load, whatever its files and the results of its calls, sleeps at most twenty milliseconds in all and
  leaves the monitors, the connections and the watched descriptors as they were.
\<close>

theorem load_wait_bounded:
  assumes "kvdb_load B s src force = (r, s')"
  shows "clock s' \<le> clock s + 20 \<and> head s' = head s \<and> watch s' = watch s \<and> conns s' = conns s"
  using kvdb_load_same [OF assms] by (simp add: same_mons_def)

theorem load_wait_bounded_witness:
  "clock (snd (kvdb_load (file_backend file_config) (loop_start empty_fs) ''/none;/none'' True)) \<le> 20"
proof -
  obtain r s where e: "kvdb_load (file_backend file_config) (loop_start empty_fs) ''/none;/none'' True = (r, s)"
    by (metis prod.exhaust)
  show ?thesis using load_wait_bounded [OF e] e by (simp add: loop_start_def)
qed

section \<open>The client's connection\<close>


section \<open>The system property interface\<close>

text \<open>
  C26: The serial number of the process counts its successful sets, modulo \<open>2 ^ 32\<close>, and the callback of a
  read gets the name, the value that was set last and that number.
\<close>

theorem serial_counts_sets:
  assumes "file_inv cfg (world (sp_proc s))" "file_good_key cfg k" "cstring v" "length v < PROP_VALUE_MAX"
    and "set_all (direct_api (file_backend cfg)) s0 kvs = (rs, s)"
    and "system_property_set (direct_api (file_backend cfg)) s k (Some v) = (r, s1)" "0 \<le> r"
  shows "fst (system_property_read_callback (direct_api (file_backend cfg)) s1 k True) =
    Inr (Some (k, v, serial_num s0 + of_nat (length (filter (\<lambda>r. 0 \<le> r) rs)) + 1))"
  using property_store.read_callback_after_set [OF file_direct_store assms(1-4) TrueI assms(6,7)]
    set_all_serial [OF assms(5)] by simp

theorem serial_counts_sets_witness:
  "fst (system_property_read_callback (direct_api (file_backend file_config))
     (snd (system_property_set (direct_api (file_backend file_config))
        \<lparr>sp_proc = process empty_fs, serial_num = 6\<rparr> ''k'' (Some ''on''))) ''k'' True) =
   Inr (Some (''k'', ''on'', 7))"
proof -
  let ?s = "\<lparr>sp_proc = process empty_fs, serial_num = 6\<rparr>" and ?P = "direct_api (file_backend file_config)"
  have r: "fst (system_property_set ?P ?s ''k'' (Some ''on'')) = 0" by code_simp
  obtain q s1 where e: "system_property_set ?P ?s ''k'' (Some ''on'') = (q, s1)" by (meson surj_pair)
  have "fst (system_property_read_callback ?P s1 ''k'' True) =
      Inr (Some (''k'', ''on'', serial_num ?s + of_nat (length (filter (\<lambda>r. 0 \<le> r) ([] :: int list))) + 1))"
    by (rule serial_counts_sets [OF _ file_key_demo(3) _ _ _ e, where kvs = "[]"])
      (use r e in \<open>simp_all add: empty_fs_inv kvdb_consts cstring_def\<close>)
  then show ?thesis by (simp add: e)
qed

text \<open>
  C38: \<open>__system_property_find\<close> passes a null value pointer, through which \<open>property_get\<close> writes when UnQLite
  has the property: a find that should succeed is undefined behaviour.
\<close>

theorem find_null_pointer:
  assumes "unqlite_ok U recs" "unq_paths cfg" "unqlite_opens U"
    and "unq_idle cfg recs (world (sp_proc s))" "unq_good_key k" "penv (sp_proc s) k = None"
    and "unq_view cfg recs (world (sp_proc s)) k = Some v" "v \<noteq> []"
  shows "fst (system_property_find (direct_api (unq_backend cfg U)) s k) = Inl NullDeref"
proof -
  have "unqlite_steady cfg U recs" by unfold_locales (rule assms(1-3))+
  then show ?thesis by (rule unqlite_steady.unq_find_faults [OF _ assms(4-8)])
qed

theorem find_null_pointer_witness:
  "fst (system_property_find (direct_api (unq_backend default_config alist_engine))
     \<lparr>sp_proc = process one_unq, serial_num = 0\<rparr> ''k'') = Inl NullDeref"
  by (rule find_null_pointer [OF alist_engine_ok default_config_paths alist_engine_opens _ unq_key_demo(2), of _ "''on''"])
    (use one_unq_opened in \<open>simp_all add: one_unq_view unq_opened_def\<close>)

section \<open>The command line tools\<close>

text \<open>
  C27: When the set of \<open>setprop key value\<close> on the file storage succeeds, the tool exits with 0 and prints
  nothing, and \<open>getprop key\<close> then prints the value on a line and exits with 0, for printable values.
\<close>

theorem setprop_then_getprop:
  assumes "file_inv cfg (world p)" "file_good_key cfg k" "cstring v" "\<forall>c \<in> set v. isprint c"
    and "penv p k = None" "k \<noteq> ''-h''"
    and "property_set (direct_api (file_backend cfg)) p k (Some v) = (r, p1)" "0 \<le> r"
  shows "setprop_main (direct_api (file_backend cfg)) (direct_delete (file_backend cfg)) direct_commit strerror p [a, k, v] =
      ((0, []), p1) \<and>
    fst (getprop_main cfg cs (direct_api (file_backend cfg)) (world p1) [b, k]) = (0, v @ newline)"
  by (rule property_store.setprop_getprop [OF file_direct_store assms(1,2) _ assms(3,4) TrueI assms(5-8)])
    (use assms(2) in \<open>simp_all add: direct_commit_def file_good_key_def\<close>)

theorem setprop_then_getprop_witness:
  "fst (getprop_main file_config False (direct_api (file_backend file_config))
     (world (snd (setprop_main (direct_api (file_backend file_config)) (direct_delete (file_backend file_config)) direct_commit
        (\<lambda>_. ''error'') (process empty_fs) [''setprop'', ''k'', ''on'']))) [''getprop'', ''k'']) = (0, ''on'' @ newline)"
proof -
  let ?P = "direct_api (file_backend file_config)"
  have r: "fst (property_set ?P (process empty_fs) ''k'' (Some ''on'')) = 0" by code_simp
  obtain q p1 where e: "property_set ?P (process empty_fs) ''k'' (Some ''on'') = (q, p1)" by (meson surj_pair)
  have on: "cstring ''on''" "\<forall>c \<in> set ''on''. isprint c" by code_simp+
  have "setprop_main ?P (direct_delete (file_backend file_config)) direct_commit (\<lambda>_. ''error'') (process empty_fs)
      [''setprop'', ''k'', ''on''] = ((0, []), p1) \<and>
    fst (getprop_main file_config False ?P (world p1) [''getprop'', ''k'']) = (0, ''on'' @ newline)"
    by (rule setprop_then_getprop [OF _ file_key_demo(3) on _ _ e])
      (use r e in \<open>simp_all add: empty_fs_inv\<close>)
  then show ?thesis by simp
qed

text \<open>
  C28: When the emulator answers with its properties and a lone zero byte, the program sets exactly these
  properties, in order, and exits with 0, whatever its uninitialised buffers hold.
\<close>

theorem qemu_sets_stream:
  assumes "q_sys q = []" "q_rx q = qemu_stream es" "\<forall>e \<in> set es. qemu_entry e"
    and "\<And>n. length (fst (stack n)) = 5 \<and> length (snd (stack n)) = BUFF_SIZE"
  shows "qemu_main P stack q = Some (Inr (0, q\<lparr>q_rx := [],
    q_wrote := q_wrote q @ [mem_of ''pipe:qemud:boot-properties'', ''0004'', ''list''],
    q_proc := fold (\<lambda>(k, v) p. snd (property_set P p k (Some v))) es (q_proc q)\<rparr>))"
proof -
  let ?q1 = "q\<lparr>q_wrote := q_wrote q @ [mem_of ''pipe:qemud:boot-properties'']\<rparr>"
  let ?q2 = "q\<lparr>q_wrote := q_wrote q @ [mem_of ''pipe:qemud:boot-properties'', ''0004'', ''list'']\<rparr>"
  have c: "qemu_connect q MAX_TRIES = (True, ?q1)"
    using assms(1) by (subst qemu_connect.simps)
      (simp add: qemu_pipe_open_ns_def q_call_def q_write_def snprintf_def kvdb_consts)
  have h: "snprintf 5 (pad_hex 4 4) = ''0004''" and l: "strlen (mem_of ''list'') = 4" "take 4 (mem_of ''list'') = ''list''"
    by code_simp+
  have s: "qemud_channel_send ?q1 (mem_of ''list'') (- 1) = (4, ?q2)"
    using assms(1) by (simp add: qemud_channel_send_def q_call_def q_write_def h l)
  have "qemu_loop P stack 0 ?q2 = Some (Inr (?q2\<lparr>q_rx := [],
      q_proc := fold (\<lambda>(k, v) p. snd (property_set P p k (Some v))) es (q_proc ?q2)\<rparr>))"
    by (rule qemu_loop_stream [OF assms(4,3)]) (simp add: assms(2))
  with c s show ?thesis by (simp add: qemu_main_def)
qed

theorem qemu_sets_stream_witness:
  "\<exists>q. qemu_main (direct_api (file_backend file_config)) (\<lambda>_. (replicate 5 NUL, replicate BUFF_SIZE NUL))
      \<lparr>q_proc = process empty_fs, q_sys = [], q_wrote = [], q_rx = qemu_stream [(''k'', ''on'')], q_errno = 0, q_slept = 0\<rparr> =
      Some (Inr (0, q)) \<and>
    q_proc q = snd (property_set (direct_api (file_backend file_config)) (process empty_fs) ''k'' (Some ''on''))"
proof -
  have e: "qemu_entry (''k'', ''on'')" by code_simp
  show ?thesis
    using e qemu_sets_stream [where es = "[(''k'', ''on'')]" and P = "direct_api (file_backend file_config)" and
      q = "\<lparr>q_proc = process empty_fs, q_sys = [], q_wrote = [], q_rx = qemu_stream [(''k'', ''on'')], q_errno = 0, q_slept = 0\<rparr>"
      and stack = "\<lambda>_. (replicate 5 NUL, replicate BUFF_SIZE NUL)"]
    by simp
qed

section \<open>Logging\<close>





section \<open>Log times\<close>

text \<open>
  C31: On normal times the arithmetic of \<open>log_time\<close> is that of the nanoseconds: subtraction is exact and ends at
  zero, addition is exact modulo the range of the seconds, both give normal times, and the order is the
  order of the nanoseconds.
\<close>

theorem log_time_refines_nanos:
  assumes "log_time_ok t" "log_time_ok T"
  shows "nanos (log_time_minus t T) = nanos t - nanos T \<and> log_time_ok (log_time_minus t T) \<and>
    nanos (log_time_plus t T) = (nanos t + nanos T) mod (4294967296 * 1000000000) \<and> log_time_ok (log_time_plus t T) \<and>
    (log_time_lt t T \<longleftrightarrow> nanos t < nanos T)"
  using log_time_minus_nanos [OF assms] log_time_plus_nanos [OF assms] nanos_less [OF assms]
  by (simp add: log_time_comparisons)

theorem log_time_refines_nanos_witness:
  "nanos (log_time_minus (Log_Time 5 1) (Log_Time 3 2)) = 1999999999"
  using log_time_refines_nanos [of "Log_Time 5 1" "Log_Time 3 2"] by (simp add: log_time_ok_def nanos_def)



section \<open>Event lists\<close>

text \<open>
  C33: After any sequence of elements on a new list its status is zero exactly when every call of the
  library succeeded, and otherwise the last error; a write then transmits or returns that error.
\<close>

theorem event_list_keeps_errors:
  "event_list_status (put_all E (event_list_new E t) es) =
     last_error 0 (write_results E (create_android_logger E t) es) \<and>
   (event_list_status (put_all E (event_list_new E t) es) = 0 \<longleftrightarrow>
     list_all (\<lambda>r. 0 \<le> r) (write_results E (create_android_logger E t) es)) \<and>
   fst (event_list_write E (put_all E (event_list_new E t) es) logid) =
     (if event_list_status (put_all E (event_list_new E t) es) \<in> {0, - EBUSY}
      then fst (android_log_write_list E (ctx (put_all E (event_list_new E t) es)) logid)
      else event_list_status (put_all E (event_list_new E t) es))"
proof -
  let ?s = "put_all E (event_list_new E t) es"
  have s: "event_list_status ?s = last_error 0 (write_results E (create_android_logger E t) es)"
    by (simp add: event_list_status_last event_list_new_def)
  have "fst (event_list_write E ?s logid) =
      (if event_list_status ?s \<in> {0, - EBUSY} then fst (android_log_write_list E (ctx ?s) logid)
       else event_list_status ?s)"
    using event_list_write_result [of E ?s logid] last_error_le [of 0] s
    by (auto simp: event_list_status_def order.order_iff_strict)
  with s show ?thesis by (simp only: last_error_none list_all_iff)
qed

section \<open>Tracing\<close>

text \<open>
  C30: \<open>atrace\<close> with names of categories enables exactly these: afterwards a trace point of a category writes
  its note when the category was named and nothing otherwise.
\<close>

theorem atrace_enables_named:
  assumes "args \<noteq> []" "set args \<subseteq> cat_name ` set categories" "c \<in> set categories"
    and "atrace_main j t (prog # args) = (r, t')"
  shows "r = 0 \<and> notes_out (atrace_begin t' (cat_tag c) name) =
    notes_out t @ (if cat_name c \<in> set args then [''B|'' @ show_int (tid t) @ ''|'' @ name] else [])"
proof -
  obtain w where w: "category_loop args j 0 = Inr w" "(w AND cat_tag c = 0) \<longleftrightarrow> cat_name c \<notin> set args"
    using category_loop_known [OF assms(2), of j 0] assms(3) by auto
  have "hd args \<in> cat_name ` set categories" using assms(1,2) by (cases args) auto
  moreover have "''--list_categories'' \<notin> cat_name ` set categories"
    by (simp add: categories_def category_list_def category_def)
  ultimately have "hd args \<noteq> ''--list_categories''" by metis
  then have m: "atrace_main j t (prog # args) = run_category j t (prog # args)"
    using assms(1) by (cases args) (simp_all add: atrace_main_def)
  show ?thesis
    using assms(4) w unfolding m
    by (auto simp: run_category_def print_line_def atrace_begin_def atrace_begin_body_def sched_note_def
        atrace_is_tag_enabled_def atrace_get_enabled_tags_def)
qed

theorem atrace_enables_named_witness:
  "notes_out (atrace_begin (snd (atrace_main 0 fresh_trace [''atrace'', ''gfx''])) (cat_tag (categories ! 0)) ''draw'') =
   [''B|'' @ show_int 1 @ ''|draw'']"
proof -
  obtain r t' where e: "atrace_main 0 fresh_trace [''atrace'', ''gfx''] = (r, t')" by (meson surj_pair)
  have c: "categories ! 0 \<in> set categories" "cat_name (categories ! 0) = ''gfx''"
    by (simp_all add: categories_def category_list_def category_def)
  then have "set [''gfx''] \<subseteq> cat_name ` set categories" by (metis empty_set empty_subsetI image_eqI insert_subset list.simps(15))
  from atrace_enables_named [OF _ this c(1) e, of "''draw''"] c(2) show ?thesis
    unfolding e by (simp add: fresh_trace_def)
qed

end
